theory Spec2Isabelle
  imports Main
begin

section \<open>Values, records and errors\<close>

text \<open>
  The script handles server records typed \<^verbatim>\<open>any\<close>. The fields it copies are
  modelled as JavaScript values of the kinds that can reach it from a JSON body or from
  arithmetic: absent (\<^verbatim>\<open>undefined\<close>), an integral number, \<^verbatim>\<open>NaN\<close>, or a string.
\<close>

datatype jsval = JUndefined | JNum int | JNaN | JStr string

text \<open>Raw user record of the \<^verbatim>\<open>/users\<close> endpoint: \<^verbatim>\<open>_id\<close>, \<^verbatim>\<open>data.email\<close>,
  \<^verbatim>\<open>creation_date\<close>.\<close>

record raw_user =
  u_id :: jsval
  data_email :: jsval
  creation_date :: jsval

text \<open>Raw pending user record: \<^verbatim>\<open>_id\<close> and the array \<^verbatim>\<open>login_ids\<close> of objects
  with an \<^verbatim>\<open>id\<close> field.\<close>

datatype login_id = LoginId (login_id_type: jsval) (login_id_id: jsval)

record raw_pending =
  p_id :: jsval
  login_ids :: "login_id list"

text \<open>The objects built by the two \<^verbatim>\<open>map\<close> calls of \<^verbatim>\<open>atlas.ts\<close>.\<close>

record user_data =
  id' :: jsval
  email :: jsval
  createdAt :: jsval
  status :: string

record metadata =
  md_exportDate :: string
  md_groupId :: string
  md_appId :: string
  md_totalUsers :: nat
  md_totalPendingUsers :: nat
  md_pendingUserDate :: string

record envelope =
  out_metadata :: metadata
  out_users :: "user_data list"
  out_pendingUsers :: "user_data list"

text \<open>Whatever can be thrown: an axios error that carries a response (status, status text,
  body), any other failure of a request, a \<^verbatim>\<open>TypeError\<close> of the runtime, an
  \<^verbatim>\<open>Error\<close> made by the script itself, and a failure of a file system call.\<close>

datatype error =
    AxiosResponseError nat string string
  | RequestError string
  | TypeError string
  | JsError string
  | FsError string

section \<open>Strings of the runtime\<close>

definition digit_char :: "nat \<Rightarrow> char" where
  "digit_char n = ''0123456789'' ! n"

fun show_nat :: "nat \<Rightarrow> string" where
  "show_nat n = (if n < 10 then [digit_char n] else show_nat (n div 10) @ [digit_char (n mod 10)])"

declare show_nat.simps [simp del]

definition show_int :: "int \<Rightarrow> string" where
  "show_int i = (if i < 0 then CHR ''-'' # show_nat (nat (- i)) else show_nat (nat i))"

text \<open>A value inside a template literal.\<close>

fun to_string :: "jsval \<Rightarrow> string" where
  "to_string JUndefined = ''undefined''"
| "to_string (JNum i) = show_int i"
| "to_string JNaN = ''NaN''"
| "to_string (JStr s) = s"

definition is_digit :: "char \<Rightarrow> bool" where
  "is_digit c = (c \<in> set ''0123456789'')"

definition digit_value :: "char \<Rightarrow> nat" where
  "digit_value c = length (takeWhile (\<lambda>d. d \<noteq> c) ''0123456789'')"

definition digits_value :: "string \<Rightarrow> nat" where
  "digits_value s = foldl (\<lambda>acc c. 10 * acc + digit_value c) 0 s"

text \<open>\<^verbatim>\<open>/^\d{4}-\d{2}-\d{2}$/.test(s)\<close>: ten characters, digits around two hyphens. Without
  the multiline flag \<^verbatim>\<open>$\<close> is the end of the input only.\<close>

definition matches_date_pattern :: "string \<Rightarrow> bool" where
  "matches_date_pattern s =
     (length s = 10 \<and> list_all is_digit (take 4 s) \<and> s ! 4 = CHR ''-'' \<and>
      list_all is_digit (take 2 (drop 5 s)) \<and> s ! 7 = CHR ''-'' \<and>
      list_all is_digit (drop 8 s))"

section \<open>The runtime's path module (POSIX)\<close>

text \<open>\<^verbatim>\<open>path.basename\<close>: trailing separators are dropped, then everything up to the
  last separator.\<close>

definition path_basename :: "string \<Rightarrow> string" where
  "path_basename p =
     rev (takeWhile (\<lambda>c. c \<noteq> CHR ''/'') (dropWhile (\<lambda>c. c = CHR ''/'') (rev p)))"

primrec split_slash :: "string \<Rightarrow> string list" where
  "split_slash [] = [[]]"
| "split_slash (c # cs) =
     (if c = CHR ''/'' then [] # split_slash cs
      else (case split_slash cs of [] \<Rightarrow> [[c]] | s # ss \<Rightarrow> (c # s) # ss))"

fun join_slash :: "string list \<Rightarrow> string" where
  "join_slash [] = []"
| "join_slash [s] = s"
| "join_slash (s # t # ss) = s @ CHR ''/'' # join_slash (t # ss)"

text \<open>\<^verbatim>\<open>normalizeString\<close>, segment by segment; \<open>res\<close> holds the segments kept so far, the
  last one first. Empty segments and \<^verbatim>\<open>.\<close> are skipped; \<^verbatim>\<open>..\<close> removes the last segment
  kept, unless there is none or it is \<^verbatim>\<open>..\<close> itself, in which case \<^verbatim>\<open>..\<close> is kept when the
  path is relative.\<close>

fun normalize_segments :: "bool \<Rightarrow> string list \<Rightarrow> string list \<Rightarrow> string list" where
  "normalize_segments allowAboveRoot res [] = rev res"
| "normalize_segments allowAboveRoot res (s # ss) =
     (if s = [] \<or> s = ''.'' then normalize_segments allowAboveRoot res ss
      else if s = ''..'' then
        (case res of
           [] \<Rightarrow> normalize_segments allowAboveRoot (if allowAboveRoot then [''..''] else []) ss
         | t # ts \<Rightarrow>
             if t = ''..''
             then normalize_segments allowAboveRoot (if allowAboveRoot then ''..'' # res else res) ss
             else normalize_segments allowAboveRoot ts ss)
      else normalize_segments allowAboveRoot (s # res) ss)"

definition path_normalize :: "string \<Rightarrow> string" where
  "path_normalize p =
     (if p = [] then ''.''
      else
        let isAbsolute = (hd p = CHR ''/'');
            trailingSeparator = (last p = CHR ''/'');
            q = join_slash (normalize_segments (\<not> isAbsolute) [] (split_slash p))
        in if q = [] then (if isAbsolute then ''/'' else if trailingSeparator then ''./'' else ''.'')
           else (if isAbsolute then ''/'' else []) @ q @ (if trailingSeparator then ''/'' else []))"

definition path_join :: "string list \<Rightarrow> string" where
  "path_join args =
     (let joined = filter (\<lambda>a. a \<noteq> []) args
      in if joined = [] then ''.'' else path_normalize (join_slash joined))"

text \<open>\<^verbatim>\<open>path.dirname\<close>: the scan runs from the end down to index 1.\<close>

definition path_dirname :: "string \<Rightarrow> string" where
  "path_dirname p =
     (if p = [] then ''.''
      else
        let hasRoot = (hd p = CHR ''/'');
            r = dropWhile (\<lambda>c. c \<noteq> CHR ''/'') (dropWhile (\<lambda>c. c = CHR ''/'') (rev (tl p)))
        in if r = [] then (if hasRoot then ''/'' else ''.'')
           else if hasRoot \<and> tl r = [] then ''//''
           else hd p # rev (tl r))"

section \<open>The runtime's date parser\<close>

text \<open>
  \<^verbatim>\<open>new Date(s).getTime()\<close> for the strings \<^verbatim>\<open>main\<close> lets through: the date-only ISO
  form is read as UTC midnight, with the language standard's day arithmetic
  (\<^verbatim>\<open>DayFromYear\<close>, \<^verbatim>\<open>MakeDay\<close>); the engine accepts months 1 to 12 and days 1 to 31 and
  lets \<^verbatim>\<open>MakeDay\<close> carry a day past the end of its month. Every other string, the empty one
  included, is taken as an invalid date (\<open>None\<close>, the time value \<^verbatim>\<open>NaN\<close>).
\<close>

definition DayFromYear :: "int \<Rightarrow> int" where
  "DayFromYear y = 365 * (y - 1970) + (y - 1969) div 4 - (y - 1901) div 100 + (y - 1601) div 400"

definition InLeapYear :: "int \<Rightarrow> bool" where
  "InLeapYear y = (y mod 4 = 0 \<and> (y mod 100 \<noteq> 0 \<or> y mod 400 = 0))"

definition DaysInMonth :: "int \<Rightarrow> nat \<Rightarrow> int" where
  "DaysInMonth y m =
     (if m = 2 then (if InLeapYear y then 29 else 28)
      else if m = 4 \<or> m = 6 \<or> m = 9 \<or> m = 11 then 30 else 31)"

text \<open>\<open>MakeDay y m d\<close> with the month counted from 1, for \<open>1 \<le> m \<le> 12\<close>.\<close>

definition MakeDay :: "int \<Rightarrow> nat \<Rightarrow> int \<Rightarrow> int" where
  "MakeDay y m d = DayFromYear y + (\<Sum>k \<leftarrow> [1..<m]. DaysInMonth y k) + d - 1"

definition msPerDay :: int where
  "msPerDay = 86400000"

definition Date_getTime :: "string \<Rightarrow> int option" where
  "Date_getTime s =
     (if matches_date_pattern s then
        let y = digits_value (take 4 s);
            m = digits_value (take 2 (drop 5 s));
            d = digits_value (drop 8 s)
        in if 1 \<le> m \<and> m \<le> 12 \<and> 1 \<le> d \<and> d \<le> 31
           then Some (MakeDay (int y) m (int d) * msPerDay) else None
      else None)"

section \<open>Effects: what a run does and how it ends\<close>

text \<open>
  Every call that leaves the process is an event of the run, recorded with its outcome
  (\<open>None\<close>: it succeeded): the login request (URL, user name, API key), a page request (URL,
  bearer token), \<^verbatim>\<open>fs.mkdir\<close> and \<^verbatim>\<open>fs.writeFile\<close> (path, the object that is serialised).
  A console line has its level, its message and the further arguments of the call.
\<close>

datatype level = Info | Success | Warning | Err | Debug

datatype logarg = ArgNum nat | ArgStr string | ArgError error

datatype message = Text string | Json user_data

datatype event =
    HttpPost string string string "error option"
  | HttpGet string string "error option"
  | Mkdir string "error option"
  | WriteFile string envelope "error option"
  | Console level message "logarg list"

text \<open>
  The world outside: what the login answers, what the \<open>n\<close>-th request for a page of users
  and of pending users answers (a page, or a failure), whether the two file system calls
  fail, and the clock read for \<^verbatim>\<open>exportDate\<close>.
\<close>

record world =
  login_response :: "error + string"
  users_response :: "nat \<Rightarrow> error + raw_user list"
  pending_response :: "nat \<Rightarrow> error + raw_pending list"
  mkdir_result :: "error option"
  writeFile_result :: "error option"
  now_ISOString :: string

text \<open>
  An asynchronous computation either never settles (\<open>None\<close>) or settles with a value or a
  thrown error, after the events it caused.
\<close>

type_synonym 'a run = "((error + 'a) \<times> event list) option"

definition ret :: "'a \<Rightarrow> 'a run" where
  "ret x = Some (Inr x, [])"

definition throw :: "error \<Rightarrow> 'a run" where
  "throw e = Some (Inl e, [])"

definition emit :: "event list \<Rightarrow> unit run" where
  "emit evs = Some (Inr (), evs)"

definition bind :: "'a run \<Rightarrow> ('a \<Rightarrow> 'b run) \<Rightarrow> 'b run" where
  "bind m f =
     Option.bind m (\<lambda>p.
       case fst p of
         Inl e \<Rightarrow> Some (Inl e, snd p)
       | Inr x \<Rightarrow> Option.bind (f x) (\<lambda>q. Some (fst q, snd p @ snd q)))"

definition try_catch :: "'a run \<Rightarrow> (error \<Rightarrow> 'a run) \<Rightarrow> 'a run" where
  "try_catch m h =
     Option.bind m (\<lambda>p.
       case fst p of
         Inl e \<Rightarrow> Option.bind (h e) (\<lambda>q. Some (fst q, snd p @ snd q))
       | Inr x \<Rightarrow> Some (Inr x, snd p))"

lemma bind_mono [partial_function_mono]:
  assumes mf: "mono_option B" and mg: "\<And>y. mono_option (\<lambda>f. C y f)"
  shows "mono_option (\<lambda>f. bind (B f) (\<lambda>y. C y f))"
  unfolding bind_def
proof (rule Partial_Function.bind_mono [OF mf])
  fix p :: "(error + 'c) \<times> event list"
  show "mono_option (\<lambda>f. case fst p of Inl e \<Rightarrow> Some (Inl e, snd p)
          | Inr x \<Rightarrow> Option.bind (C x f) (\<lambda>q. Some (fst q, snd p @ snd q)))"
  proof (cases "fst p")
    case (Inl e)
    then show ?thesis by (simp add: option.const_mono)
  next
    case (Inr x)
    then show ?thesis
      by (simp add: Partial_Function.bind_mono [OF mg] option.const_mono)
  qed
qed

subsection \<open>The logger of \<^verbatim>\<open>utils.ts\<close>\<close>

definition log_info :: "string \<Rightarrow> logarg list \<Rightarrow> unit run" where
  "log_info m args = emit [Console Info (Text m) args]"

definition log_success :: "string \<Rightarrow> logarg list \<Rightarrow> unit run" where
  "log_success m args = emit [Console Success (Text m) args]"

definition log_warning :: "string \<Rightarrow> logarg list \<Rightarrow> unit run" where
  "log_warning m args = emit [Console Warning (Text m) args]"

definition log_error :: "string \<Rightarrow> logarg list \<Rightarrow> unit run" where
  "log_error m args = emit [Console Err (Text m) args]"

definition log_debug :: "bool \<Rightarrow> string \<Rightarrow> logarg list \<Rightarrow> unit run" where
  "log_debug verbose m args = (if verbose then emit [Console Debug (Text m) args] else ret ())"

subsection \<open>The calls that leave the process\<close>

definition outcome :: "error + 'a \<Rightarrow> error option" where
  "outcome r = (case r of Inl e \<Rightarrow> Some e | Inr _ \<Rightarrow> None)"

definition axios_post :: "error + 'a \<Rightarrow> string \<Rightarrow> string \<Rightarrow> string \<Rightarrow> 'a run" where
  "axios_post response url username apiKey =
     Some (response, [HttpPost url username apiKey (outcome response)])"

definition axios_get :: "error + 'a \<Rightarrow> string \<Rightarrow> string \<Rightarrow> 'a run" where
  "axios_get response url token = Some (response, [HttpGet url token (outcome response)])"

definition fs_result :: "error option \<Rightarrow> error + unit" where
  "fs_result r = (case r of None \<Rightarrow> Inr () | Some e \<Rightarrow> Inl e)"

definition fs_mkdir :: "world \<Rightarrow> string \<Rightarrow> unit run" where
  "fs_mkdir w dir = Some (fs_result (mkdir_result w), [Mkdir dir (mkdir_result w)])"

definition fs_writeFile :: "world \<Rightarrow> string \<Rightarrow> envelope \<Rightarrow> unit run" where
  "fs_writeFile w file userData =
     Some (fs_result (writeFile_result w), [WriteFile file userData (writeFile_result w)])"

section \<open>\<^verbatim>\<open>atlas.ts\<close>\<close>

text \<open>The \<^verbatim>\<open>catch\<close> blocks of the request functions: an axios error with a response is
  logged by status, any other error as it is.\<close>

definition log_caught :: "bool \<Rightarrow> string \<Rightarrow> string \<Rightarrow> error \<Rightarrow> unit run" where
  "log_caught verbose withResponse otherwise err =
     (case err of
        AxiosResponseError st statusText body \<Rightarrow>
          bind (log_error withResponse [ArgNum st, ArgStr statusText]) (\<lambda>_.
          log_debug verbose ''Error details:'' [ArgStr body])
      | _ \<Rightarrow> log_error otherwise [ArgError err])"

definition login_url :: string where
  "login_url =
     ''https://services.cloud.mongodb.com/api/admin/v3.0/auth/providers/mongodb-cloud/login''"

definition getAPIToken :: "world \<Rightarrow> string \<Rightarrow> string \<Rightarrow> bool \<Rightarrow> string run" where
  "getAPIToken w username apiKey verbose =
     try_catch
       (bind (log_debug verbose ''Authenticating with MongoDB Atlas...'' []) (\<lambda>_.
        bind (axios_post (login_response w) login_url username apiKey) (\<lambda>access_token.
        bind (log_debug verbose ''Authentication successful'' []) (\<lambda>_.
        ret access_token))))
       (\<lambda>err.
        bind (log_caught verbose ''Authentication failed:'' ''Error getting API token:'' err) (\<lambda>_.
        throw err))"

text \<open>The query string. The parameter \<^verbatim>\<open>lastId = 0\<close> takes its default when the argument
  is left out or is \<^verbatim>\<open>undefined\<close>; \<^verbatim>\<open>=== 0\<close> holds of the number zero only.\<close>

definition userQuery :: "jsval \<Rightarrow> string" where
  "userQuery arg =
     (let lastId = (case arg of JUndefined \<Rightarrow> JNum 0 | _ \<Rightarrow> arg)
      in if lastId = JNum 0 then [] else ''?after='' @ to_string lastId)"

definition users_url :: "string \<Rightarrow> string \<Rightarrow> jsval \<Rightarrow> string" where
  "users_url groupID appID lastId =
     ''https://services.cloud.mongodb.com/api/admin/v3.0/groups/'' @ groupID @ ''/apps/'' @ appID
       @ ''/users'' @ userQuery lastId"

definition getUsersFromAppServices ::
  "world \<Rightarrow> nat \<Rightarrow> string \<Rightarrow> string \<Rightarrow> string \<Rightarrow> bool \<Rightarrow> jsval \<Rightarrow> raw_user list run" where
  "getUsersFromAppServices w n accessToken groupID appID verbose lastId =
     try_catch
       (bind (log_debug verbose (''Fetching users from: '' @ users_url groupID appID lastId) []) (\<lambda>_.
        bind (axios_get (users_response w n) (users_url groupID appID lastId) accessToken) (\<lambda>response_data.
        bind (log_debug verbose (''Retrieved '' @ show_nat (length response_data) @ '' users'') []) (\<lambda>_.
        ret response_data))))
       (\<lambda>err.
        bind (log_caught verbose ''Error fetching users:'' ''Error fetching users:'' err) (\<lambda>_.
        throw err))"

text \<open>The \<^verbatim>\<open>while\<close> loop of \<^verbatim>\<open>getUsers\<close>; \<open>n\<close> counts the requests made so far.\<close>

partial_function (option) getUsers_while ::
  "world \<Rightarrow> string \<Rightarrow> string \<Rightarrow> string \<Rightarrow> bool \<Rightarrow> nat \<Rightarrow> raw_user list \<Rightarrow> raw_user list
     \<Rightarrow> raw_user list run" where
  "getUsers_while w accessToken groupID appID verbose n users returnedUsers =
     (if returnedUsers \<noteq> [] then
        bind (getUsersFromAppServices w n accessToken groupID appID verbose
                (u_id (last returnedUsers))) (\<lambda>returnedUsers'.
        getUsers_while w accessToken groupID appID verbose (Suc n)
          (users @ returnedUsers') returnedUsers')
      else ret users)"

declare getUsers_while.simps [code]

text \<open>The paginated fetch of \<^verbatim>\<open>getUsers\<close>: the first request, made without a
  \<^verbatim>\<open>lastId\<close>, and the loop.\<close>

definition getUsers_fetch :: "world \<Rightarrow> string \<Rightarrow> string \<Rightarrow> string \<Rightarrow> bool \<Rightarrow> raw_user list run" where
  "getUsers_fetch w accessToken groupID appID verbose =
     bind (getUsersFromAppServices w 0 accessToken groupID appID verbose JUndefined) (\<lambda>returnedUsers.
     getUsers_while w accessToken groupID appID verbose 1 ([] @ returnedUsers) returnedUsers)"

definition toUserData :: "raw_user \<Rightarrow> user_data" where
  "toUserData user =
     \<lparr>id' = u_id user, email = data_email user, createdAt = creation_date user,
      status = ''active''\<rparr>"

definition getUsers :: "world \<Rightarrow> string \<Rightarrow> string \<Rightarrow> string \<Rightarrow> bool \<Rightarrow> user_data list run" where
  "getUsers w accessToken groupID appID verbose =
     try_catch
       (bind (log_debug verbose ''Getting all users...'' []) (\<lambda>_.
        bind (getUsers_fetch w accessToken groupID appID verbose) (\<lambda>users.
        bind (log_debug verbose (''Total users retrieved: '' @ show_nat (length users)) []) (\<lambda>_.
        ret (map toUserData users)))))
       (\<lambda>err.
        bind (log_error ''Error getting all users:'' [ArgError err]) (\<lambda>_.
        throw err))"

definition pending_users_url :: "string \<Rightarrow> string \<Rightarrow> jsval \<Rightarrow> string" where
  "pending_users_url groupID appID lastId =
     ''https://services.cloud.mongodb.com/api/admin/v3.0/groups/'' @ groupID @ ''/apps/'' @ appID
       @ ''/user_registrations/pending_users'' @ userQuery lastId"

definition getPendingUsersFromAppServices ::
  "world \<Rightarrow> nat \<Rightarrow> string \<Rightarrow> string \<Rightarrow> string \<Rightarrow> bool \<Rightarrow> jsval \<Rightarrow> raw_pending list run" where
  "getPendingUsersFromAppServices w n accessToken groupID appID verbose lastId =
     try_catch
       (bind (log_debug verbose
                (''Fetching pending users from: '' @ pending_users_url groupID appID lastId) []) (\<lambda>_.
        bind (axios_get (pending_response w n) (pending_users_url groupID appID lastId) accessToken)
          (\<lambda>response_data.
        bind (log_debug verbose
                (''Retrieved '' @ show_nat (length response_data) @ '' pending users'') []) (\<lambda>_.
        ret response_data))))
       (\<lambda>err.
        bind (log_caught verbose ''Error fetching pending users:'' ''Error fetching pending users:'' err)
          (\<lambda>_.
        throw err))"

partial_function (option) getPendingUsers_while ::
  "world \<Rightarrow> string \<Rightarrow> string \<Rightarrow> string \<Rightarrow> bool \<Rightarrow> nat \<Rightarrow> raw_pending list \<Rightarrow> raw_pending list
     \<Rightarrow> raw_pending list run" where
  "getPendingUsers_while w accessToken groupID appID verbose n pendingUsers returnedPendingUsers =
     (if returnedPendingUsers \<noteq> [] then
        bind (log_debug verbose
                (''Fetching next batch of pending users after ID: ''
                   @ to_string (p_id (last returnedPendingUsers))) []) (\<lambda>_.
        bind (getPendingUsersFromAppServices w n accessToken groupID appID verbose
                (p_id (last returnedPendingUsers))) (\<lambda>returnedPendingUsers'.
        getPendingUsers_while w accessToken groupID appID verbose (Suc n)
          (pendingUsers @ returnedPendingUsers') returnedPendingUsers'))
      else ret pendingUsers)"

declare getPendingUsers_while.simps [code]

text \<open>The paginated fetch of \<^verbatim>\<open>getPendingUsers\<close>.\<close>

definition getPendingUsers_fetch ::
  "world \<Rightarrow> string \<Rightarrow> string \<Rightarrow> string \<Rightarrow> bool \<Rightarrow> raw_pending list run" where
  "getPendingUsers_fetch w accessToken groupID appID verbose =
     bind (getPendingUsersFromAppServices w 0 accessToken groupID appID verbose JUndefined)
       (\<lambda>returnedPendingUsers.
     getPendingUsers_while w accessToken groupID appID verbose 1
       ([] @ returnedPendingUsers) returnedPendingUsers)"

text \<open>\<^verbatim>\<open>new Date(pendingUserDate).getTime() / 1000\<close>; the time value of a date-only string is
  a whole number of days, so the quotient is exact.\<close>

definition createdAtTimestamp :: "string \<Rightarrow> jsval" where
  "createdAtTimestamp pendingUserDate =
     (case Date_getTime pendingUserDate of None \<Rightarrow> JNaN | Some t \<Rightarrow> JNum (t div 1000))"

text \<open>The callback of the second \<^verbatim>\<open>map\<close>. Reading \<^verbatim>\<open>.id\<close> of \<^verbatim>\<open>login_ids[0]\<close> throws a
  \<^verbatim>\<open>TypeError\<close> when the array is empty.\<close>

definition toPendingUserData :: "jsval \<Rightarrow> raw_pending \<Rightarrow> error + user_data" where
  "toPendingUserData timestamp user =
     (case login_ids user of
        [] \<Rightarrow> Inl (TypeError ''Cannot read properties of undefined (reading id)'')
      | first # _ \<Rightarrow>
          Inr \<lparr>id' = p_id user, email = login_id_id first, createdAt = timestamp,
               status = ''pending''\<rparr>)"

text \<open>\<^verbatim>\<open>Array.prototype.map\<close> with a callback that may throw: the first throw ends it.\<close>

primrec map_throwing :: "('a \<Rightarrow> error + 'b) \<Rightarrow> 'a list \<Rightarrow> error + 'b list" where
  "map_throwing f [] = Inr []"
| "map_throwing f (x # xs) =
     (case f x of
        Inl e \<Rightarrow> Inl e
      | Inr y \<Rightarrow> (case map_throwing f xs of Inl e \<Rightarrow> Inl e | Inr ys \<Rightarrow> Inr (y # ys)))"

definition settle :: "error + 'a \<Rightarrow> 'a run" where
  "settle r = Some (r, [])"

definition getPendingUsers ::
  "world \<Rightarrow> string \<Rightarrow> string \<Rightarrow> string \<Rightarrow> string \<Rightarrow> bool \<Rightarrow> user_data list run" where
  "getPendingUsers w accessToken groupID appID pendingUserDate verbose =
     try_catch
       (bind (log_debug verbose ''Getting all pending users...'' []) (\<lambda>_.
        bind (getPendingUsers_fetch w accessToken groupID appID verbose) (\<lambda>pendingUsers.
        bind (log_debug verbose
                (''Total pending users retrieved: '' @ show_nat (length pendingUsers)) []) (\<lambda>_.
        bind (log_debug verbose
                (''Using '' @ pendingUserDate @ '' as the creation date for pending users'') []) (\<lambda>_.
        settle (map_throwing (toPendingUserData (createdAtTimestamp pendingUserDate))
                  pendingUsers))))))
       (\<lambda>err.
        bind (log_error ''Error getting all pending users:'' [ArgError err]) (\<lambda>_.
        throw err))"

section \<open>\<^verbatim>\<open>index.ts\<close>\<close>

text \<open>The four environment variables (\<open>None\<close>: not set) and the parsed command line.\<close>

record config =
  env_USERNAME :: "string option"
  env_API_KEY :: "string option"
  env_GROUP_ID :: "string option"
  env_APP_ID :: "string option"
  argv_dryRun :: bool
  argv_verbose :: bool
  argv_batchSize :: int
  argv_outputFile :: "string option"
  argv_pendingUserDate :: string

text \<open>\<^verbatim>\<open>!v\<close> for a string that may be undefined.\<close>

definition falsy :: "string option \<Rightarrow> bool" where
  "falsy v = (v = None \<or> v = Some [])"

text \<open>\<^verbatim>\<open>if (!v) throw new Error(msg)\<close>, after which \<open>v\<close> is a string.\<close>

definition require :: "string option \<Rightarrow> string \<Rightarrow> string run" where
  "require v msg =
     (case v of
        None \<Rightarrow> throw (JsError msg)
      | Some s \<Rightarrow> if s = [] then throw (JsError msg) else ret s)"

text \<open>\<^verbatim>\<open>rawOutputFile ? path.join('output', path.basename(rawOutputFile)) : undefined\<close>\<close>

definition resolve_outputFile :: "string option \<Rightarrow> string option" where
  "resolve_outputFile rawOutputFile =
     (if falsy rawOutputFile then None
      else Some (path_join [''output'', path_basename (the rawOutputFile)]))"

text \<open>\<^verbatim>\<open>Object.entries(userData.metadata)\<close>, each value as the template literal prints it.\<close>

definition metadata_entries :: "metadata \<Rightarrow> (string \<times> string) list" where
  "metadata_entries md =
     [(''exportDate'', md_exportDate md),
      (''groupId'', md_groupId md),
      (''appId'', md_appId md),
      (''totalUsers'', show_nat (md_totalUsers md)),
      (''totalPendingUsers'', show_nat (md_totalPendingUsers md)),
      (''pendingUserDate'', md_pendingUserDate md)]"

text \<open>The \<^verbatim>\<open>else\<close> branch of the export step.\<close>

definition log_summary :: "envelope \<Rightarrow> string option \<Rightarrow> unit run" where
  "log_summary userData outputFile =
     bind (log_info ''Dry run mode or no output file specified. Logging summary data:'' []) (\<lambda>_.
     bind (log_info ''Metadata:'' []) (\<lambda>_.
     bind (emit (map (\<lambda>(key, val). Console Info (Text (''  '' @ key @ '': '' @ val)) [])
                  (metadata_entries (out_metadata userData)))) (\<lambda>_.
     bind (if length (out_users userData) > 0 then
             bind (log_info ''Sample user data (first user):'' []) (\<lambda>_.
             emit [Console Info (Json (out_users userData ! 0)) []])
           else ret ()) (\<lambda>_.
     bind (if length (out_pendingUsers userData) > 0 then
             bind (log_info ''Sample pending user data (first pending user):'' []) (\<lambda>_.
             emit [Console Info (Json (out_pendingUsers userData ! 0)) []])
           else ret ()) (\<lambda>_.
     if falsy outputFile
     then log_warning ''No output file specified. Use --outputFile to save data to a file.'' []
     else log_warning ''Dry run mode enabled. Users not saved to file.'' [])))))"

text \<open>The \<^verbatim>\<open>then\<close> branch of the export step.\<close>

definition save_users :: "world \<Rightarrow> envelope \<Rightarrow> string \<Rightarrow> unit run" where
  "save_users w userData outputFile =
     bind (log_info (''Saving users to '' @ outputFile @ ''...'') []) (\<lambda>_.
     bind (fs_mkdir w (path_dirname outputFile)) (\<lambda>_.
     bind (fs_writeFile w outputFile userData) (\<lambda>_.
     log_success (''Users saved to '' @ outputFile) [])))"

text \<open>The body of the \<^verbatim>\<open>try\<close> block of \<^verbatim>\<open>main\<close>.\<close>

definition main_try :: "config \<Rightarrow> world \<Rightarrow> unit run" where
  "main_try cfg w =
     bind (log_info ''Realm users migration script started'' []) (\<lambda>_.
     let explicitDryRun = argv_dryRun cfg;
         verbose = argv_verbose cfg;
         batchSize = argv_batchSize cfg;
         rawOutputFile = argv_outputFile cfg;
         pendingUserDate = argv_pendingUserDate cfg;
         outputFile = resolve_outputFile rawOutputFile;
         dryRun = (explicitDryRun \<or> falsy outputFile)
     in
     bind (require (env_USERNAME cfg)
       ''Username is required. Please set the USERNAME environment variable in your .env file.'')
       (\<lambda>username.
     bind (require (env_API_KEY cfg)
       ''API key is required. Please set the API_KEY environment variable in your .env file.'')
       (\<lambda>apiKey.
     bind (require (env_GROUP_ID cfg)
       ''Group ID is required. Please set the GROUP_ID environment variable in your .env file.'')
       (\<lambda>groupId.
     bind (require (env_APP_ID cfg)
       ''App ID is required. Please set the APP_ID environment variable in your .env file.'')
       (\<lambda>appId.
     bind (if pendingUserDate \<noteq> [] \<and> \<not> matches_date_pattern pendingUserDate
           then throw (JsError ''pendingUserDate must be in YYYY-MM-DD format'')
           else ret ()) (\<lambda>_.
     bind (log_debug verbose ''Configuration:'' []) (\<lambda>_.
     bind (log_debug verbose (''- Group ID: '' @ groupId) []) (\<lambda>_.
     bind (log_debug verbose (''- App ID: '' @ appId) []) (\<lambda>_.
     bind (log_debug verbose (''- Batch size: '' @ show_int batchSize) []) (\<lambda>_.
     bind (log_debug verbose
             (''- Output file: '' @ (if falsy outputFile then ''Not specified'' else the outputFile))
             []) (\<lambda>_.
     bind (log_debug verbose
             (''- Dry run: '' @ (if dryRun then ''Yes'' else ''No'')
                @ (if falsy outputFile then '' (no output file specified)'' else [])) []) (\<lambda>_.
     bind (log_debug verbose (''- Verbose: '' @ (if verbose then ''Yes'' else ''No'')) []) (\<lambda>_.
     bind (log_debug verbose (''- Pending user date: '' @ pendingUserDate) []) (\<lambda>_.
     bind (getAPIToken w username apiKey verbose) (\<lambda>apiToken.
     bind (log_success ''Authentication successful'' []) (\<lambda>_.
     bind (log_info ''Fetching users...'' []) (\<lambda>_.
     bind (getUsers w apiToken groupId appId verbose) (\<lambda>users.
     bind (log_success (''Total users: '' @ show_nat (length users)) []) (\<lambda>_.
     bind (log_info ''Fetching pending users...'' []) (\<lambda>_.
     bind (getPendingUsers w apiToken groupId appId pendingUserDate verbose) (\<lambda>pendingUsers.
     bind (log_success (''Total pending users: '' @ show_nat (length pendingUsers)) []) (\<lambda>_.
     let userData =
           \<lparr>out_metadata =
              \<lparr>md_exportDate = now_ISOString w, md_groupId = groupId, md_appId = appId,
               md_totalUsers = length users, md_totalPendingUsers = length pendingUsers,
               md_pendingUserDate = pendingUserDate\<rparr>,
            out_users = users, out_pendingUsers = pendingUsers\<rparr>
     in
     bind (if \<not> falsy outputFile \<and> \<not> dryRun
           then save_users w userData (the outputFile)
           else log_summary userData outputFile) (\<lambda>_.
     log_success ''Migration script completed successfully'' [])))))))))))))))))))))))"

text \<open>How the process ends: \<^verbatim>\<open>main\<close> with its \<^verbatim>\<open>catch\<close>, which logs the error and calls
  \<^verbatim>\<open>process.exit(1)\<close>; with no error the process ends with code 0.\<close>

record run_result =
  exit_code :: nat
  trace :: "event list"

definition main :: "config \<Rightarrow> world \<Rightarrow> run_result option" where
  "main cfg w =
     (case main_try cfg w of
        None \<Rightarrow> None
      | Some (Inr _, tr) \<Rightarrow> Some \<lparr>exit_code = 0, trace = tr\<rparr>
      | Some (Inl err, tr) \<Rightarrow>
          Some \<lparr>exit_code = 1,
                trace = tr @ [Console Err (Text ''Error in migration script:'') [ArgError err]]\<rparr>)"

section \<open>Reading a trace\<close>

text \<open>What an event says went wrong, if anything.\<close>

fun failure :: "event \<Rightarrow> error option" where
  "failure (HttpPost url username apiKey r) = r"
| "failure (HttpGet url token r) = r"
| "failure (Mkdir dir r) = r"
| "failure (WriteFile file userData r) = r"
| "failure (Console l m args) = None"

fun is_console :: "event \<Rightarrow> bool" where
  "is_console (Console l m args) = True"
| "is_console _ = False"

fun is_debug :: "event \<Rightarrow> bool" where
  "is_debug (Console Debug m args) = True"
| "is_debug _ = False"

fun is_http :: "event \<Rightarrow> bool" where
  "is_http (HttpPost url username apiKey r) = True"
| "is_http (HttpGet url token r) = True"
| "is_http _ = False"


text \<open>The URLs of the page requests of a trace, in the order they were made.\<close>

fun page_request :: "event \<Rightarrow> string list" where
  "page_request (HttpGet url token r) = [url]"
| "page_request _ = []"

definition requests :: "event list \<Rightarrow> string list" where
  "requests t = concat (map page_request t)"

text \<open>The paths given to \<^verbatim>\<open>fs.writeFile\<close>, in order.\<close>

fun write_path :: "event \<Rightarrow> string list" where
  "write_path (WriteFile file userData r) = [file]"
| "write_path _ = []"

definition write_paths :: "event list \<Rightarrow> string list" where
  "write_paths t = concat (map write_path t)"

text \<open>The records printed as samples, in order.\<close>

fun sample :: "event \<Rightarrow> user_data list" where
  "sample (Console l (Json u) args) = [u]"
| "sample _ = []"

definition samples :: "event list \<Rightarrow> user_data list" where
  "samples t = concat (map sample t)"

text \<open>No call of the trace failed.\<close>

definition clean :: "event list \<Rightarrow> bool" where
  "clean t = list_all (\<lambda>ev. failure ev = None) t"

text \<open>Once a call has failed, only console lines follow.\<close>

fun quiet_after_failure :: "event list \<Rightarrow> bool" where
  "quiet_after_failure [] = True"
| "quiet_after_failure (ev # t) =
     (if failure ev = None then quiet_after_failure t else list_all is_console t)"

text \<open>From its \<open>n\<close>-th answer on, an endpoint serves the non-empty pages \<open>ps\<close> and then an
  empty page.\<close>

primrec serves :: "(nat \<Rightarrow> error + 'a list) \<Rightarrow> nat \<Rightarrow> 'a list list \<Rightarrow> bool" where
  "serves answer n [] = (answer n = Inr [])"
| "serves answer n (p # ps) = (p \<noteq> [] \<and> answer n = Inr p \<and> serves answer (Suc n) ps)"

section \<open>Invariants of a computation\<close>

text \<open>Every event of a computation that settles satisfies \<open>P\<close>.\<close>

definition only :: "(event \<Rightarrow> bool) \<Rightarrow> 'a run \<Rightarrow> bool" where
  "only P m = (\<forall>r t. m = Some (r, t) \<longrightarrow> list_all P t)"

text \<open>
  How a settled computation relates to the calls it made: if it returned, none of them failed; if
  it threw \<open>e\<close>, every call that failed did so with \<open>e\<close> and only console lines come after it.
\<close>

definition consistent :: "error + 'a \<Rightarrow> event list \<Rightarrow> bool" where
  "consistent r t =
     (case r of
        Inr x \<Rightarrow> clean t
      | Inl e \<Rightarrow> quiet_after_failure t \<and> list_all (\<lambda>ev. failure ev = None \<or> failure ev = Some e) t)"

definition sound :: "'a run \<Rightarrow> bool" where
  "sound m = (\<forall>r t. m = Some (r, t) \<longrightarrow> consistent r t)"

text \<open>Every event of a computation that throws satisfies \<open>P\<close>.\<close>

definition throws_only :: "(event \<Rightarrow> bool) \<Rightarrow> 'a run \<Rightarrow> bool" where
  "throws_only P m = (\<forall>e t. m = Some (Inl e, t) \<longrightarrow> list_all P t)"

text \<open>A computation seen without its debug lines.\<close>

definition hide_debug :: "'a run \<Rightarrow> 'a run" where
  "hide_debug m = map_option (\<lambda>p. (fst p, filter (\<lambda>ev. \<not> is_debug ev) (snd p))) m"


text \<open>A run seen without its debug lines: how it ends and everything else it did.\<close>

definition without_debug :: "run_result \<Rightarrow> nat \<times> event list" where
  "without_debug r = (exit_code r, filter (\<lambda>ev. \<not> is_debug ev) (trace r))"

section \<open>The calendar, in the words of the specification\<close>










section \<open>Paths, in the words of the specification\<close>

text \<open>A path has no parent-directory segment; a path lies inside the directory \<^verbatim>\<open>output\<close>
  when it is \<^verbatim>\<open>output\<close> followed by at least one segment, none of them empty, \<^verbatim>\<open>.\<close> or
  \<^verbatim>\<open>..\<close>.\<close>

definition no_parent_segment :: "string \<Rightarrow> bool" where
  "no_parent_segment p = (''..'' \<notin> set (split_slash p))"

definition inside_output :: "string \<Rightarrow> bool" where
  "inside_output p =
     (case split_slash p of
        [] \<Rightarrow> False
      | dir # rest \<Rightarrow>
          dir = ''output'' \<and> rest \<noteq> [] \<and> list_all (\<lambda>s. s \<noteq> [] \<and> s \<noteq> ''.'' \<and> s \<noteq> ''..'') rest)"

section \<open>A concrete run\<close>

text \<open>Two active users served on one page and one pending user, as in the end-to-end
  example of the specification.\<close>

definition example_users :: "raw_user list" where
  "example_users =
     [\<lparr>u_id = JNum 1, data_email = JStr ''a@x.com'', creation_date = JNum 1606857105\<rparr>,
      \<lparr>u_id = JNum 2, data_email = JStr ''b@x.com'', creation_date = JNum 1606857106\<rparr>]"

definition example_pending :: "raw_pending list" where
  "example_pending = [\<lparr>p_id = JNum 3, login_ids = [LoginId (JStr ''email'') (JStr ''p@x.com'')]\<rparr>]"

definition example_world :: world where
  "example_world =
     \<lparr>login_response = Inr ''token'',
      users_response = (\<lambda>n. if n = 0 then Inr example_users else Inr []),
      pending_response = (\<lambda>n. if n = 0 then Inr example_pending else Inr []),
      mkdir_result = None,
      writeFile_result = None,
      now_ISOString = ''2025-03-30T12:15:00.000Z''\<rparr>"

definition example_config :: config where
  "example_config =
     \<lparr>env_USERNAME = Some ''user'', env_API_KEY = Some ''key'', env_GROUP_ID = Some ''g'',
      env_APP_ID = Some ''a'', argv_dryRun = False, argv_verbose = False, argv_batchSize = 100,
      argv_outputFile = Some ''out.json'', argv_pendingUserDate = ''2020-12-01''\<rparr>"

text \<open>An endpoint that never serves an empty page.\<close>

definition endless_world :: world where
  "endless_world =
     example_world\<lparr>users_response := (\<lambda>n. Inr example_users),
                    pending_response := (\<lambda>n. Inr example_pending)\<rparr>"

text \<open>A page whose last record has the identifier 0.\<close>

definition zero_id_world :: world where
  "zero_id_world =
     example_world\<lparr>users_response :=
       (\<lambda>n. if n = 0
            then Inr [\<lparr>u_id = JNum 0, data_email = JStr ''z@x.com'', creation_date = JNum 1606857105\<rparr>]
            else Inr [])\<rparr>"

text \<open>A pending user without login identifiers.\<close>

definition no_login_world :: world where
  "no_login_world =
     example_world\<lparr>pending_response :=
       (\<lambda>n. if n = 0 then Inr [\<lparr>p_id = JNum 4, login_ids = []\<rparr>] else Inr [])\<rparr>"



text \<open>The login request cannot reach the server.\<close>

definition offline_world :: world where
  "offline_world = example_world\<lparr>login_response := Inl (RequestError ''ECONNREFUSED'')\<rparr>"

section \<open>Laws of the effects\<close>

lemma bind_None [simp]: "bind None f = None"
  by (simp add: bind_def)

lemma bind_Inl [simp]: "bind (Some (Inl e, t)) f = Some (Inl e, t)"
  by (simp add: bind_def)

lemma bind_Inr: "bind (Some (Inr x, t)) f = map_option (\<lambda>q. (fst q, t @ snd q)) (f x)"
  by (cases "f x") (simp_all add: bind_def)

lemma bind_ret [simp]: "bind (ret x) f = f x"
  by (cases "f x") (simp_all add: bind_def ret_def)

lemma bind_throw [simp]: "bind (throw e) f = throw e"
  by (simp add: bind_def throw_def)

lemma bind_eq_Some:
  "bind m f = Some (r, t) \<longleftrightarrow>
     (\<exists>e. m = Some (Inl e, t) \<and> r = Inl e) \<or>
     (\<exists>x t1 t2. m = Some (Inr x, t1) \<and> f x = Some (r, t2) \<and> t = t1 @ t2)"
proof (cases m)
  case None
  then show ?thesis by simp
next
  case (Some p)
  obtain a b where p: "p = (a, b)" by (cases p)
  show ?thesis
  proof (cases a)
    case (Inl e)
    with Some p show ?thesis by auto
  next
    case (Inr x)
    with Some p show ?thesis by (cases "f x") (auto simp: bind_Inr)
  qed
qed

lemma bind_eq_None:
  "bind m f = None \<longleftrightarrow> m = None \<or> (\<exists>x t. m = Some (Inr x, t) \<and> f x = None)"
proof (cases m)
  case None
  then show ?thesis by simp
next
  case (Some p)
  obtain a b where p: "p = (a, b)" by (cases p)
  show ?thesis
  proof (cases a)
    case (Inl e)
    with Some p show ?thesis by auto
  next
    case (Inr x)
    with Some p show ?thesis by (cases "f x") (auto simp: bind_Inr)
  qed
qed

lemma try_catch_None [simp]: "try_catch None h = None"
  by (simp add: try_catch_def)

lemma try_catch_Inr [simp]: "try_catch (Some (Inr x, t)) h = Some (Inr x, t)"
  by (simp add: try_catch_def)

lemma try_catch_Inl: "try_catch (Some (Inl e, t)) h = map_option (\<lambda>q. (fst q, t @ snd q)) (h e)"
  by (cases "h e") (simp_all add: try_catch_def)


lemma try_catch_eq_None:
  "try_catch m h = None \<longleftrightarrow> m = None \<or> (\<exists>e t. m = Some (Inl e, t) \<and> h e = None)"
proof (cases m)
  case None
  then show ?thesis by simp
next
  case (Some p)
  obtain a b where p: "p = (a, b)" by (cases p)
  show ?thesis
  proof (cases a)
    case (Inr x)
    with Some p show ?thesis by auto
  next
    case (Inl e)
    with Some p show ?thesis by (cases "h e") (auto simp: try_catch_Inl)
  qed
qed


lemma log_debug_eq:
  "log_debug v m args = Some (Inr (), if v then [Console Debug (Text m) args] else [])"
  by (simp add: log_debug_def emit_def ret_def)

lemma log_caught_eq:
  "\<exists>t. log_caught v a b e = Some (Inr (), t) \<and> list_all is_console t"
  by (cases e) (auto simp: log_caught_def log_error_def log_debug_eq emit_def bind_Inr)

lemma requests_simps [simp]:
  "requests [] = []"
  "requests (ev # t) = page_request ev @ requests t"
  "requests (s @ t) = requests s @ requests t"
  by (simp_all add: requests_def)

lemma clean_simps [simp]:
  "clean [] = True"
  "clean (ev # t) = (failure ev = None \<and> clean t)"
  "clean (s @ t) = (clean s \<and> clean t)"
  by (simp_all add: clean_def)

lemma console_clean: "list_all is_console t \<Longrightarrow> clean t"
  by (induction t) (auto elim: is_console.elims)

lemma requests_console: "list_all is_console t \<Longrightarrow> requests t = []"
  by (induction t) (auto elim: is_console.elims)

lemma getUsersFromAppServices_eq:
  "\<exists>pre post. list_all is_console pre \<and> list_all is_console post \<and>
     getUsersFromAppServices w n tok g a v l =
       Some (users_response w n,
             pre @ HttpGet (users_url g a l) tok (outcome (users_response w n)) # post)"
proof (cases "users_response w n")
  case (Inr page)
  let ?pre = "if v then [Console Debug (Text (''Fetching users from: '' @ users_url g a l)) []] else []"
  let ?post = "if v then [Console Debug (Text (''Retrieved '' @ show_nat (length page) @ '' users'')) []]
               else []"
  have "getUsersFromAppServices w n tok g a v l =
          Some (Inr page, ?pre @ HttpGet (users_url g a l) tok None # ?post)"
    by (simp add: getUsersFromAppServices_def axios_get_def log_debug_eq bind_Inr ret_def
          outcome_def Inr)
  then show ?thesis
    by (intro exI [of _ ?pre] exI [of _ ?post]) (simp add: Inr outcome_def)
next
  case (Inl e)
  obtain c where c: "log_caught v ''Error fetching users:'' ''Error fetching users:'' e = Some (Inr (), c)"
    "list_all is_console c" using log_caught_eq by blast
  let ?pre = "if v then [Console Debug (Text (''Fetching users from: '' @ users_url g a l)) []] else []"
  have "getUsersFromAppServices w n tok g a v l =
          Some (Inl e, ?pre @ HttpGet (users_url g a l) tok (Some e) # c)"
    by (simp add: getUsersFromAppServices_def axios_get_def log_debug_eq bind_Inr
          outcome_def Inl try_catch_Inl c throw_def)
  then show ?thesis
    by (intro exI [of _ ?pre] exI [of _ c]) (simp add: Inl outcome_def c)
qed

lemma getUsers_while_Nil [simp]: "getUsers_while w tok g a v n users [] = ret users"
  by (subst getUsers_while.simps) simp

lemma getUsers_while_more:
  "returnedUsers \<noteq> [] \<Longrightarrow>
   getUsers_while w tok g a v n users returnedUsers =
     bind (getUsersFromAppServices w n tok g a v (u_id (last returnedUsers)))
       (\<lambda>r. getUsers_while w tok g a v (Suc n) (users @ r) r)"
  by (subst getUsers_while.simps) simp

lemma getUsers_while_serves:
  "serves (users_response w) n ps \<Longrightarrow> returnedUsers \<noteq> [] \<Longrightarrow>
   \<exists>t. getUsers_while w tok g a v n users returnedUsers = Some (Inr (users @ concat ps), t) \<and>
       requests t = map (\<lambda>p. users_url g a (u_id (last p))) (returnedUsers # ps) \<and> clean t"
proof (induction ps arbitrary: n users returnedUsers)
  case Nil
  obtain pre post where f: "list_all is_console pre" "list_all is_console post"
    "getUsersFromAppServices w n tok g a v (u_id (last returnedUsers)) =
       Some (users_response w n,
         pre @ HttpGet (users_url g a (u_id (last returnedUsers))) tok (outcome (users_response w n)) # post)"
    using getUsersFromAppServices_eq by blast
  from Nil have r: "users_response w n = Inr []" by simp
  show ?case
    unfolding getUsers_while_more [OF Nil.prems(2)] using f
    by (simp add: r bind_Inr ret_def requests_console outcome_def console_clean)
next
  case (Cons p ps)
  obtain pre post where f: "list_all is_console pre" "list_all is_console post"
    "getUsersFromAppServices w n tok g a v (u_id (last returnedUsers)) =
       Some (users_response w n,
         pre @ HttpGet (users_url g a (u_id (last returnedUsers))) tok (outcome (users_response w n)) # post)"
    using getUsersFromAppServices_eq by blast
  from Cons.prems have r: "users_response w n = Inr p" "p \<noteq> []" "serves (users_response w) (Suc n) ps"
    by simp_all
  from Cons.IH [OF r(3) r(2), of "users @ p"] obtain t where
    t: "getUsers_while w tok g a v (Suc n) (users @ p) p = Some (Inr ((users @ p) @ concat ps), t)"
       "requests t = map (\<lambda>p. users_url g a (u_id (last p))) (p # ps)" "clean t"
    by blast
  show ?case
    unfolding getUsers_while_more [OF Cons.prems(2)] using f t
    by (simp add: r bind_Inr requests_console outcome_def console_clean)
qed


lemma getUsers_fetch_serves:
  assumes "serves (users_response w) 0 ps"
  shows "\<exists>t. getUsers_fetch w tok g a v = Some (Inr (concat ps), t) \<and>
           requests t = users_url g a JUndefined # map (\<lambda>p. users_url g a (u_id (last p))) ps \<and>
           clean t"
proof -
  obtain pre post where f: "list_all is_console pre" "list_all is_console post"
    "getUsersFromAppServices w 0 tok g a v JUndefined =
       Some (users_response w 0,
         pre @ HttpGet (users_url g a JUndefined) tok (outcome (users_response w 0)) # post)"
    using getUsersFromAppServices_eq by blast
  show ?thesis
  proof (cases ps)
    case Nil
    with assms have r: "users_response w 0 = Inr []" by simp
    show ?thesis
      using f by (simp add: getUsers_fetch_def Nil r bind_Inr ret_def requests_console outcome_def
          console_clean)
  next
    case (Cons p ps')
    with assms have r: "users_response w 0 = Inr p" "p \<noteq> []" "serves (users_response w) (Suc 0) ps'"
      by simp_all
    from getUsers_while_serves [OF r(3) r(2), of tok g a v p] obtain t where
      t: "getUsers_while w tok g a v (Suc 0) p p = Some (Inr (p @ concat ps'), t)"
         "requests t = map (\<lambda>p. users_url g a (u_id (last p))) (p # ps')" "clean t"
      by blast
    show ?thesis
      using f t by (simp add: getUsers_fetch_def Cons r bind_Inr requests_console outcome_def
          console_clean)
  qed
qed

lemma getUsers_serves:
  assumes "serves (users_response w) 0 ps"
  shows "\<exists>t. getUsers w tok g a v = Some (Inr (map toUserData (concat ps)), t) \<and>
           requests t = users_url g a JUndefined # map (\<lambda>p. users_url g a (u_id (last p))) ps \<and>
           clean t"
proof -
  from getUsers_fetch_serves [OF assms, of tok g a v] obtain t where
    t: "getUsers_fetch w tok g a v = Some (Inr (concat ps), t)"
       "requests t = users_url g a JUndefined # map (\<lambda>p. users_url g a (u_id (last p))) ps" "clean t"
    by blast
  show ?thesis
    using t by (simp add: getUsers_def log_debug_eq bind_Inr ret_def)
qed

lemma getPendingUsersFromAppServices_eq:
  "\<exists>pre post. list_all is_console pre \<and> list_all is_console post \<and>
     getPendingUsersFromAppServices w n tok g a v l =
       Some (pending_response w n,
             pre @ HttpGet (pending_users_url g a l) tok (outcome (pending_response w n)) # post)"
proof (cases "pending_response w n")
  case (Inr page)
  let ?pre = "if v then [Console Debug
                (Text (''Fetching pending users from: '' @ pending_users_url g a l)) []] else []"
  let ?post = "if v then [Console Debug
                (Text (''Retrieved '' @ show_nat (length page) @ '' pending users'')) []] else []"
  have "getPendingUsersFromAppServices w n tok g a v l =
          Some (Inr page, ?pre @ HttpGet (pending_users_url g a l) tok None # ?post)"
    by (simp add: getPendingUsersFromAppServices_def axios_get_def log_debug_eq bind_Inr ret_def
          outcome_def Inr)
  then show ?thesis
    by (intro exI [of _ ?pre] exI [of _ ?post]) (simp add: Inr outcome_def)
next
  case (Inl e)
  obtain c where c:
    "log_caught v ''Error fetching pending users:'' ''Error fetching pending users:'' e
       = Some (Inr (), c)"
    "list_all is_console c" using log_caught_eq by blast
  let ?pre = "if v then [Console Debug
                (Text (''Fetching pending users from: '' @ pending_users_url g a l)) []] else []"
  have "getPendingUsersFromAppServices w n tok g a v l =
          Some (Inl e, ?pre @ HttpGet (pending_users_url g a l) tok (Some e) # c)"
    by (simp add: getPendingUsersFromAppServices_def axios_get_def log_debug_eq bind_Inr
          outcome_def Inl try_catch_Inl c throw_def)
  then show ?thesis
    by (intro exI [of _ ?pre] exI [of _ c]) (simp add: Inl outcome_def c)
qed

lemma getPendingUsers_while_Nil [simp]:
  "getPendingUsers_while w tok g a v n pendingUsers [] = ret pendingUsers"
  by (subst getPendingUsers_while.simps) simp

lemma getPendingUsers_while_more:
  "returned \<noteq> [] \<Longrightarrow>
   getPendingUsers_while w tok g a v n pendingUsers returned =
     bind (log_debug v (''Fetching next batch of pending users after ID: ''
                          @ to_string (p_id (last returned))) []) (\<lambda>_.
     bind (getPendingUsersFromAppServices w n tok g a v (p_id (last returned)))
       (\<lambda>r. getPendingUsers_while w tok g a v (Suc n) (pendingUsers @ r) r))"
  by (subst getPendingUsers_while.simps) simp

lemma getPendingUsers_while_serves:
  "serves (pending_response w) n qs \<Longrightarrow> returned \<noteq> [] \<Longrightarrow>
   \<exists>t. getPendingUsers_while w tok g a v n pendingUsers returned
         = Some (Inr (pendingUsers @ concat qs), t) \<and>
       requests t = map (\<lambda>p. pending_users_url g a (p_id (last p))) (returned # qs) \<and> clean t"
proof (induction qs arbitrary: n pendingUsers returned)
  case Nil
  obtain pre post where f: "list_all is_console pre" "list_all is_console post"
    "getPendingUsersFromAppServices w n tok g a v (p_id (last returned)) =
       Some (pending_response w n,
         pre @ HttpGet (pending_users_url g a (p_id (last returned))) tok
                 (outcome (pending_response w n)) # post)"
    using getPendingUsersFromAppServices_eq by blast
  from Nil have r: "pending_response w n = Inr []" by simp
  show ?case
    unfolding getPendingUsers_while_more [OF Nil.prems(2)] using f
    by (simp add: r bind_Inr ret_def requests_console outcome_def console_clean log_debug_eq)
next
  case (Cons p qs)
  obtain pre post where f: "list_all is_console pre" "list_all is_console post"
    "getPendingUsersFromAppServices w n tok g a v (p_id (last returned)) =
       Some (pending_response w n,
         pre @ HttpGet (pending_users_url g a (p_id (last returned))) tok
                 (outcome (pending_response w n)) # post)"
    using getPendingUsersFromAppServices_eq by blast
  from Cons.prems have r: "pending_response w n = Inr p" "p \<noteq> []"
    "serves (pending_response w) (Suc n) qs"
    by simp_all
  from Cons.IH [OF r(3) r(2), of "pendingUsers @ p"] obtain t where
    t: "getPendingUsers_while w tok g a v (Suc n) (pendingUsers @ p) p
          = Some (Inr ((pendingUsers @ p) @ concat qs), t)"
       "requests t = map (\<lambda>p. pending_users_url g a (p_id (last p))) (p # qs)" "clean t"
    by blast
  show ?case
    unfolding getPendingUsers_while_more [OF Cons.prems(2)] using f t
    by (simp add: r bind_Inr requests_console outcome_def console_clean log_debug_eq)
qed

lemma getPendingUsers_fetch_serves:
  assumes "serves (pending_response w) 0 qs"
  shows "\<exists>t. getPendingUsers_fetch w tok g a v = Some (Inr (concat qs), t) \<and>
           requests t = pending_users_url g a JUndefined
                          # map (\<lambda>p. pending_users_url g a (p_id (last p))) qs \<and>
           clean t"
proof -
  obtain pre post where f: "list_all is_console pre" "list_all is_console post"
    "getPendingUsersFromAppServices w 0 tok g a v JUndefined =
       Some (pending_response w 0,
         pre @ HttpGet (pending_users_url g a JUndefined) tok (outcome (pending_response w 0)) # post)"
    using getPendingUsersFromAppServices_eq by blast
  show ?thesis
  proof (cases qs)
    case Nil
    with assms have r: "pending_response w 0 = Inr []" by simp
    show ?thesis
      using f by (simp add: getPendingUsers_fetch_def Nil r bind_Inr ret_def requests_console
          outcome_def console_clean)
  next
    case (Cons p qs')
    with assms have r: "pending_response w 0 = Inr p" "p \<noteq> []"
      "serves (pending_response w) (Suc 0) qs'"
      by simp_all
    from getPendingUsers_while_serves [OF r(3) r(2), of tok g a v p] obtain t where
      t: "getPendingUsers_while w tok g a v (Suc 0) p p = Some (Inr (p @ concat qs'), t)"
         "requests t = map (\<lambda>p. pending_users_url g a (p_id (last p))) (p # qs')" "clean t"
      by blast
    show ?thesis
      using f t by (simp add: getPendingUsers_fetch_def Cons r bind_Inr requests_console outcome_def
          console_clean)
  qed
qed

lemma settle_try_catch:
  "\<exists>t. try_catch (Some (r, s)) (\<lambda>err. bind (log_error m [ArgError err]) (\<lambda>_. throw err))
        = Some (r, s @ t) \<and> list_all is_console t"
  by (cases r) (simp_all add: try_catch_Inl log_error_def emit_def bind_Inr throw_def)

lemma getPendingUsers_serves:
  assumes "serves (pending_response w) 0 qs"
  shows "\<exists>t. getPendingUsers w tok g a d v =
             Some (map_throwing (toPendingUserData (createdAtTimestamp d)) (concat qs), t) \<and>
           requests t = pending_users_url g a JUndefined
                          # map (\<lambda>p. pending_users_url g a (p_id (last p))) qs \<and>
           clean t"
proof -
  from getPendingUsers_fetch_serves [OF assms, of tok g a v] obtain t where
    t: "getPendingUsers_fetch w tok g a v = Some (Inr (concat qs), t)"
       "requests t = pending_users_url g a JUndefined
                       # map (\<lambda>p. pending_users_url g a (p_id (last p))) qs" "clean t"
    by blast
  let ?r = "map_throwing (toPendingUserData (createdAtTimestamp d)) (concat qs)"
  let ?s = "(if v then [Console Debug (Text ''Getting all pending users...'') []] else []) @ t @
            (if v then [Console Debug (Text (''Total pending users retrieved: ''
                          @ show_nat (length (concat qs)))) []] else []) @
            (if v then [Console Debug (Text (''Using '' @ d
                          @ '' as the creation date for pending users'')) []] else [])"
  have body: "getPendingUsers w tok g a d v =
          try_catch (Some (?r, ?s))
            (\<lambda>err. bind (log_error ''Error getting all pending users:'' [ArgError err])
                     (\<lambda>_. throw err))"
    using t by (simp add: getPendingUsers_def log_debug_eq bind_Inr settle_def)
  obtain c where c: "getPendingUsers w tok g a d v = Some (?r, ?s @ c)" "list_all is_console c"
    using settle_try_catch [of ?r ?s "''Error getting all pending users:''"] body by auto
  show ?thesis
    using t c by (auto simp: requests_console console_clean)
qed

section \<open>Termination of the loops\<close>

lemma getUsers_while_returns:
  "users_response w (n + k) = Inr [] \<Longrightarrow>
   \<exists>r. getUsers_while w tok g a v n users returnedUsers = Some r"
proof (induction k arbitrary: n users returnedUsers)
  case 0
  show ?case
  proof (cases "returnedUsers = []")
    case True
    then show ?thesis by (simp add: ret_def)
  next
    case False
    obtain pre post where
      "getUsersFromAppServices w n tok g a v (u_id (last returnedUsers)) =
         Some (users_response w n,
           pre @ HttpGet (users_url g a (u_id (last returnedUsers))) tok
                   (outcome (users_response w n)) # post)"
      using getUsersFromAppServices_eq by blast
    with 0 show ?thesis
      unfolding getUsers_while_more [OF False] by (simp add: bind_Inr ret_def)
  qed
next
  case (Suc k)
  show ?case
  proof (cases "returnedUsers = []")
    case True
    then show ?thesis by (simp add: ret_def)
  next
    case False
    obtain pre post where f:
      "getUsersFromAppServices w n tok g a v (u_id (last returnedUsers)) =
         Some (users_response w n,
           pre @ HttpGet (users_url g a (u_id (last returnedUsers))) tok
                   (outcome (users_response w n)) # post)"
      using getUsersFromAppServices_eq by blast
    show ?thesis
    proof (cases "users_response w n")
      case (Inl e)
      with f show ?thesis unfolding getUsers_while_more [OF False] by simp
    next
      case (Inr p)
      from Suc.prems have "users_response w (Suc n + k) = Inr []" by simp
      from Suc.IH [OF this, of "users @ p" p] obtain r where
        "getUsers_while w tok g a v (Suc n) (users @ p) p = Some r" by blast
      with f Inr show ?thesis unfolding getUsers_while_more [OF False] by (simp add: bind_Inr)
    qed
  qed
qed

lemma getUsers_while_stops:
  "getUsers_while w tok g a v n users returnedUsers = Some y \<Longrightarrow>
   returnedUsers = [] \<or> (\<exists>k. \<forall>p. users_response w k = Inr p \<longrightarrow> p = [])"
proof (induction w tok g a v n users returnedUsers y
    rule: getUsers_while.raw_induct [rotated 1, consumes 1])
  case (1 loop w tok g a v n users returnedUsers y)
  note IH = "1.IH" and body = "1.hyps"
  show ?case
  proof (cases "returnedUsers = []")
    case True
    then show ?thesis by simp
  next
    case False
    obtain r t where y: "y = (r, t)" by (cases y)
    obtain pre post where f:
      "getUsersFromAppServices w n tok g a v (u_id (last returnedUsers)) =
         Some (users_response w n,
           pre @ HttpGet (users_url g a (u_id (last returnedUsers))) tok
                   (outcome (users_response w n)) # post)"
      using getUsersFromAppServices_eq by blast
    from body False y have
      "bind (getUsersFromAppServices w n tok g a v (u_id (last returnedUsers)))
         (\<lambda>r. loop w tok g a v (Suc n) (users @ r) r) = Some (r, t)"
      by simp
    then consider (failed) e where "users_response w n = Inl e"
      | (page) p t2 where "users_response w n = Inr p"
          "loop w tok g a v (Suc n) (users @ p) p = Some (r, t2)"
      unfolding bind_eq_Some f by auto
    then show ?thesis
    proof cases
      case failed
      then have "\<forall>p. users_response w n = Inr p \<longrightarrow> p = []" by simp
      then show ?thesis by blast
    next
      case page
      from IH [OF page(2)] show ?thesis
      proof
        assume "p = []"
        with page(1) have "\<forall>p. users_response w n = Inr p \<longrightarrow> p = []" by simp
        then show ?thesis by blast
      next
        assume "\<exists>k. \<forall>p. users_response w k = Inr p \<longrightarrow> p = []"
        then show ?thesis by blast
      qed
    qed
  qed
qed

lemma getPendingUsers_while_returns:
  "pending_response w (n + k) = Inr [] \<Longrightarrow>
   \<exists>r. getPendingUsers_while w tok g a v n users returned = Some r"
proof (induction k arbitrary: n users returned)
  case 0
  show ?case
  proof (cases "returned = []")
    case True
    then show ?thesis by (simp add: ret_def)
  next
    case False
    obtain pre post where
      "getPendingUsersFromAppServices w n tok g a v (p_id (last returned)) =
         Some (pending_response w n,
           pre @ HttpGet (pending_users_url g a (p_id (last returned))) tok
                   (outcome (pending_response w n)) # post)"
      using getPendingUsersFromAppServices_eq by blast
    with 0 show ?thesis
      unfolding getPendingUsers_while_more [OF False] by (simp add: bind_Inr ret_def log_debug_eq)
  qed
next
  case (Suc k)
  show ?case
  proof (cases "returned = []")
    case True
    then show ?thesis by (simp add: ret_def)
  next
    case False
    obtain pre post where f:
      "getPendingUsersFromAppServices w n tok g a v (p_id (last returned)) =
         Some (pending_response w n,
           pre @ HttpGet (pending_users_url g a (p_id (last returned))) tok
                   (outcome (pending_response w n)) # post)"
      using getPendingUsersFromAppServices_eq by blast
    show ?thesis
    proof (cases "pending_response w n")
      case (Inl e)
      with f show ?thesis unfolding getPendingUsers_while_more [OF False] by (simp add: log_debug_eq bind_Inr)
    next
      case (Inr p)
      from Suc.prems have "pending_response w (Suc n + k) = Inr []" by simp
      from Suc.IH [OF this, of "users @ p" p] obtain r where
        "getPendingUsers_while w tok g a v (Suc n) (users @ p) p = Some r" by blast
      with f Inr show ?thesis unfolding getPendingUsers_while_more [OF False] by (simp add: bind_Inr log_debug_eq)
    qed
  qed
qed

lemma getPendingUsers_while_stops:
  "getPendingUsers_while w tok g a v n users returned = Some y \<Longrightarrow>
   returned = [] \<or> (\<exists>k. \<forall>p. pending_response w k = Inr p \<longrightarrow> p = [])"
proof (induction w tok g a v n users returned y
    rule: getPendingUsers_while.raw_induct [rotated 1, consumes 1])
  case (1 loop w tok g a v n users returned y)
  note IH = "1.IH" and body = "1.hyps"
  show ?case
  proof (cases "returned = []")
    case True
    then show ?thesis by simp
  next
    case False
    obtain r t where y: "y = (r, t)" by (cases y)
    obtain pre post where f:
      "getPendingUsersFromAppServices w n tok g a v (p_id (last returned)) =
         Some (pending_response w n,
           pre @ HttpGet (pending_users_url g a (p_id (last returned))) tok
                   (outcome (pending_response w n)) # post)"
      using getPendingUsersFromAppServices_eq by blast
    from body False y have
      "\<exists>t'. bind (getPendingUsersFromAppServices w n tok g a v (p_id (last returned)))
         (\<lambda>r. loop w tok g a v (Suc n) (users @ r) r) = Some (r, t')"
      by (auto simp: log_debug_eq bind_eq_Some [where m = "Some _"])
    then consider (failed) e where "pending_response w n = Inl e"
      | (page) p t2 where "pending_response w n = Inr p"
          "loop w tok g a v (Suc n) (users @ p) p = Some (r, t2)"
      unfolding bind_eq_Some f by auto
    then show ?thesis
    proof cases
      case failed
      then have "\<forall>p. pending_response w n = Inr p \<longrightarrow> p = []" by simp
      then show ?thesis by blast
    next
      case page
      from IH [OF page(2)] show ?thesis
      proof
        assume "p = []"
        with page(1) have "\<forall>p. pending_response w n = Inr p \<longrightarrow> p = []" by simp
        then show ?thesis by blast
      next
        assume "\<exists>k. \<forall>p. pending_response w k = Inr p \<longrightarrow> p = []"
        then show ?thesis by blast
      qed
    qed
  qed
qed


lemma getUsers_None_iff:
  "getUsers w tok g a v = None \<longleftrightarrow> getUsers_fetch w tok g a v = None"
  by (auto simp: getUsers_def try_catch_eq_None bind_eq_None bind_eq_Some log_debug_eq ret_def
        log_error_def emit_def bind_Inr throw_def)

lemma getPendingUsers_None_iff:
  "getPendingUsers w tok g a d v = None \<longleftrightarrow> getPendingUsers_fetch w tok g a v = None"
  by (auto simp: getPendingUsers_def try_catch_eq_None bind_eq_None bind_eq_Some log_debug_eq
        ret_def log_error_def emit_def bind_Inr throw_def settle_def)

lemma getUsers_fetch_returns:
  assumes "users_response w k = Inr []"
  shows "\<exists>r. getUsers_fetch w tok g a v = Some r"
proof -
  obtain pre post where f:
    "getUsersFromAppServices w 0 tok g a v JUndefined =
       Some (users_response w 0,
         pre @ HttpGet (users_url g a JUndefined) tok (outcome (users_response w 0)) # post)"
    using getUsersFromAppServices_eq by blast
  show ?thesis
  proof (cases "users_response w 0")
    case (Inl e)
    with f show ?thesis by (simp add: getUsers_fetch_def)
  next
    case (Inr p)
    show ?thesis
    proof (cases k)
      case 0
      with assms Inr f show ?thesis by (simp add: getUsers_fetch_def bind_Inr ret_def)
    next
      case (Suc j)
      with assms have "users_response w (1 + j) = Inr []" by simp
      from getUsers_while_returns [OF this, of tok g a v p p] f Inr show ?thesis
        by (auto simp: getUsers_fetch_def bind_Inr)
    qed
  qed
qed

lemma getUsers_fetch_diverges:
  assumes "\<forall>k. \<exists>p. users_response w k = Inr p \<and> p \<noteq> []"
  shows "getUsers_fetch w tok g a v = None"
proof (rule ccontr)
  assume "getUsers_fetch w tok g a v \<noteq> None"
  then obtain r t where rt: "getUsers_fetch w tok g a v = Some (r, t)" by auto
  obtain pre post where f:
    "getUsersFromAppServices w 0 tok g a v JUndefined =
       Some (users_response w 0,
         pre @ HttpGet (users_url g a JUndefined) tok (outcome (users_response w 0)) # post)"
    using getUsersFromAppServices_eq by blast
  from assms obtain p where p: "users_response w 0 = Inr p" "p \<noteq> []" by blast
  from rt obtain t2 where "getUsers_while w tok g a v 1 ([] @ p) p = Some (r, t2)"
    unfolding getUsers_fetch_def bind_eq_Some f p by auto
  from getUsers_while_stops [OF this] p(2) assms show False by blast
qed

lemma getPendingUsers_fetch_returns:
  assumes "pending_response w k = Inr []"
  shows "\<exists>r. getPendingUsers_fetch w tok g a v = Some r"
proof -
  obtain pre post where f:
    "getPendingUsersFromAppServices w 0 tok g a v JUndefined =
       Some (pending_response w 0,
         pre @ HttpGet (pending_users_url g a JUndefined) tok (outcome (pending_response w 0)) # post)"
    using getPendingUsersFromAppServices_eq by blast
  show ?thesis
  proof (cases "pending_response w 0")
    case (Inl e)
    with f show ?thesis by (simp add: getPendingUsers_fetch_def)
  next
    case (Inr p)
    show ?thesis
    proof (cases k)
      case 0
      with assms Inr f show ?thesis by (simp add: getPendingUsers_fetch_def bind_Inr ret_def)
    next
      case (Suc j)
      with assms have "pending_response w (1 + j) = Inr []" by simp
      from getPendingUsers_while_returns [OF this, of tok g a v p p] f Inr show ?thesis
        by (auto simp: getPendingUsers_fetch_def bind_Inr)
    qed
  qed
qed

lemma getPendingUsers_fetch_diverges:
  assumes "\<forall>k. \<exists>p. pending_response w k = Inr p \<and> p \<noteq> []"
  shows "getPendingUsers_fetch w tok g a v = None"
proof (rule ccontr)
  assume "getPendingUsers_fetch w tok g a v \<noteq> None"
  then obtain r t where rt: "getPendingUsers_fetch w tok g a v = Some (r, t)" by auto
  obtain pre post where f:
    "getPendingUsersFromAppServices w 0 tok g a v JUndefined =
       Some (pending_response w 0,
         pre @ HttpGet (pending_users_url g a JUndefined) tok (outcome (pending_response w 0)) # post)"
    using getPendingUsersFromAppServices_eq by blast
  from assms obtain p where p: "pending_response w 0 = Inr p" "p \<noteq> []" by blast
  from rt obtain t2 where "getPendingUsers_while w tok g a v 1 ([] @ p) p = Some (r, t2)"
    unfolding getPendingUsers_fetch_def bind_eq_Some f p by auto
  from getPendingUsers_while_stops [OF this] p(2) assms show False by blast
qed

section \<open>The paginated fetch\<close>




text \<open>
  C8. If some answer of the endpoint is an empty page, the paginated fetch returns (with the
  list, or with the error of an earlier failed request); if every answer is a non-empty page it
  never returns: nothing bounds the number of requests and no record is recognised as seen
  before.
\<close>

theorem fetch_returns_on_empty_page_only:
  "((\<exists>k. users_response w k = Inr []) \<longrightarrow> (\<exists>r. getUsers w tok g a v = Some r)) \<and>
   ((\<forall>k. \<exists>p. users_response w k = Inr p \<and> p \<noteq> []) \<longrightarrow> getUsers w tok g a v = None) \<and>
   ((\<exists>k. pending_response w k = Inr []) \<longrightarrow> (\<exists>r. getPendingUsers w tok g a d v = Some r)) \<and>
   ((\<forall>k. \<exists>p. pending_response w k = Inr p \<and> p \<noteq> []) \<longrightarrow> getPendingUsers w tok g a d v = None)"
proof (intro conjI impI)
  assume "\<exists>k. users_response w k = Inr []"
  then obtain k where "users_response w k = Inr []" ..
  from getUsers_fetch_returns [OF this, of tok g a v]
  have "getUsers_fetch w tok g a v \<noteq> None" by auto
  then have "getUsers w tok g a v \<noteq> None" by (simp add: getUsers_None_iff)
  then show "\<exists>r. getUsers w tok g a v = Some r" by auto
next
  assume "\<forall>k. \<exists>p. users_response w k = Inr p \<and> p \<noteq> []"
  then show "getUsers w tok g a v = None"
    by (simp add: getUsers_None_iff getUsers_fetch_diverges)
next
  assume "\<exists>k. pending_response w k = Inr []"
  then obtain k where "pending_response w k = Inr []" ..
  from getPendingUsers_fetch_returns [OF this, of tok g a v]
  have "getPendingUsers_fetch w tok g a v \<noteq> None" by auto
  then have "getPendingUsers w tok g a d v \<noteq> None" by (simp add: getPendingUsers_None_iff)
  then show "\<exists>r. getPendingUsers w tok g a d v = Some r" by auto
next
  assume "\<forall>k. \<exists>p. pending_response w k = Inr p \<and> p \<noteq> []"
  then show "getPendingUsers w tok g a d v = None"
    by (simp add: getPendingUsers_None_iff getPendingUsers_fetch_diverges)
qed

theorem fetch_returns_on_empty_page_only_witness:
  "users_response example_world 1 = Inr [] \<and>
   (\<exists>r. getUsers example_world ''token'' ''g'' ''a'' False = Some r) \<and>
   getUsers endless_world ''token'' ''g'' ''a'' False = None \<and>
   pending_response example_world 1 = Inr [] \<and>
   (\<exists>r. getPendingUsers example_world ''token'' ''g'' ''a'' ''2020-12-01'' False = Some r) \<and>
   getPendingUsers endless_world ''token'' ''g'' ''a'' ''2020-12-01'' False = None"
proof -
  have e: "users_response example_world 1 = Inr []" "pending_response example_world 1 = Inr []"
    by (simp_all add: example_world_def)
  then have e': "\<exists>k. users_response example_world k = Inr []"
    "\<exists>k. pending_response example_world k = Inr []" by blast+
  have n: "\<forall>k. \<exists>p. users_response endless_world k = Inr p \<and> p \<noteq> []"
    "\<forall>k. \<exists>p. pending_response endless_world k = Inr p \<and> p \<noteq> []"
    by (simp_all add: endless_world_def example_users_def example_pending_def)
  show ?thesis
    using e e' n
      fetch_returns_on_empty_page_only [of example_world "''token''" "''g''" "''a''" False "''2020-12-01''"]
      fetch_returns_on_empty_page_only [of endless_world "''token''" "''g''" "''a''" False "''2020-12-01''"]
    by blast
qed

lemma userQuery_zero: "userQuery (JNum 0) = []" "userQuery JUndefined = []"
  by (simp_all add: userQuery_def)

text \<open>
  C10. The number 0 stands for "no cursor": after a page whose last record has the identifier 0,
  the next request has no \<^verbatim>\<open>after\<close> parameter; it is the first request again, not a request
  with the cursor 0. Both endpoints build their query string in this way.
\<close>

theorem zero_identifier_sends_no_cursor:
  assumes "serves (users_response w) 0 ps" and "i < length ps"
    and "u_id (last (ps ! i)) = JNum 0"
  shows "\<exists>r t. getUsers w tok g a v = Some (r, t) \<and>
           requests t ! Suc i = requests t ! 0 \<and>
           requests t ! Suc i =
             ''https://services.cloud.mongodb.com/api/admin/v3.0/groups/'' @ g @ ''/apps/'' @ a
               @ ''/users'' \<and>
           requests t ! Suc i \<noteq>
             ''https://services.cloud.mongodb.com/api/admin/v3.0/groups/'' @ g @ ''/apps/'' @ a
               @ ''/users'' @ ''?after=0'' \<and>
           pending_users_url g a (JNum 0) = pending_users_url g a JUndefined"
proof -
  from getUsers_serves [OF assms(1), of tok g a v] obtain t where
    t: "getUsers w tok g a v = Some (Inr (map toUserData (concat ps)), t)"
       "requests t = users_url g a JUndefined # map (\<lambda>p. users_url g a (u_id (last p))) ps"
    by blast
  from t(2) assms(2,3) have "requests t ! Suc i = users_url g a (JNum 0)"
    "requests t ! 0 = users_url g a JUndefined"
    by simp_all
  with t(1) show ?thesis
    by (simp add: users_url_def pending_users_url_def userQuery_zero)
qed

theorem zero_identifier_sends_no_cursor_witness:
  "serves (users_response zero_id_world) 0
     [[\<lparr>u_id = JNum 0, data_email = JStr ''z@x.com'', creation_date = JNum 1606857105\<rparr>]] \<and>
   (\<exists>r t. getUsers zero_id_world ''token'' ''g'' ''a'' False = Some (r, t) \<and>
      requests t ! 1 = requests t ! 0 \<and>
      requests t ! 1 = ''https://services.cloud.mongodb.com/api/admin/v3.0/groups/g/apps/a/users'')"
proof -
  have s: "serves (users_response zero_id_world) 0
     [[\<lparr>u_id = JNum 0, data_email = JStr ''z@x.com'', creation_date = JNum 1606857105\<rparr>]]"
    by (simp add: zero_id_world_def)
  show ?thesis
    using s zero_identifier_sends_no_cursor [OF s, of 0 "''token''" "''g''" "''a''" False]
    by (simp, blast)
qed

lemma map_throwing_pending_ok:
  "\<forall>u \<in> set us. login_ids u \<noteq> [] \<Longrightarrow>
   map_throwing (toPendingUserData ts) us =
     Inr (map (\<lambda>u. \<lparr>id' = p_id u, email = login_id_id (hd (login_ids u)), createdAt = ts,
                     status = ''pending''\<rparr>) us)"
  by (induction us) (auto simp: toPendingUserData_def split: list.splits)

lemma map_throwing_pending_fails:
  "\<exists>u \<in> set us. login_ids u = [] \<Longrightarrow>
   map_throwing (toPendingUserData ts) us =
     Inl (TypeError ''Cannot read properties of undefined (reading id)'')"
proof (induction us)
  case Nil
  then show ?case by simp
next
  case (Cons x us)
  show ?case
  proof (cases "login_ids x")
    case Nil
    then show ?thesis by (simp add: toPendingUserData_def)
  next
    case first: (Cons l ls)
    with Cons.prems have "\<exists>u \<in> set us. login_ids u = []" by auto
    from Cons.IH [OF this] first show ?thesis by (simp add: toPendingUserData_def)
  qed
qed

text \<open>
  C9. The pending-user transform takes the e-mail address from the first login identifier of each
  record, unguarded: when every fetched record has a login identifier, each output record carries
  the \<^verbatim>\<open>id\<close> of its first one; when some fetched record has none, \<^verbatim>\<open>getPendingUsers\<close>
  throws a \<^verbatim>\<open>TypeError\<close> and returns no list.
\<close>

theorem pending_email_is_first_login_id:
  assumes "serves (pending_response w) 0 qs"
  shows "((\<forall>u \<in> set (concat qs). login_ids u \<noteq> []) \<longrightarrow>
            (\<exists>t. getPendingUsers w tok g a d v =
               Some (Inr (map (\<lambda>u. \<lparr>id' = p_id u, email = login_id_id (hd (login_ids u)),
                                     createdAt = createdAtTimestamp d, status = ''pending''\<rparr>)
                            (concat qs)), t))) \<and>
         ((\<exists>u \<in> set (concat qs). login_ids u = []) \<longrightarrow>
            (\<exists>t. getPendingUsers w tok g a d v =
               Some (Inl (TypeError ''Cannot read properties of undefined (reading id)''), t)))"
proof -
  from getPendingUsers_serves [OF assms, of tok g a d v] obtain t where
    t: "getPendingUsers w tok g a d v =
          Some (map_throwing (toPendingUserData (createdAtTimestamp d)) (concat qs), t)"
    by blast
  show ?thesis
  proof (intro conjI impI)
    assume "\<forall>u \<in> set (concat qs). login_ids u \<noteq> []"
    from map_throwing_pending_ok [OF this, of "createdAtTimestamp d"] t
    show "\<exists>t. getPendingUsers w tok g a d v =
               Some (Inr (map (\<lambda>u. \<lparr>id' = p_id u, email = login_id_id (hd (login_ids u)),
                                     createdAt = createdAtTimestamp d, status = ''pending''\<rparr>)
                            (concat qs)), t)"
      by simp
  next
    assume "\<exists>u \<in> set (concat qs). login_ids u = []"
    from map_throwing_pending_fails [OF this, of "createdAtTimestamp d"] t
    show "\<exists>t. getPendingUsers w tok g a d v =
               Some (Inl (TypeError ''Cannot read properties of undefined (reading id)''), t)"
      by simp
  qed
qed

theorem pending_email_is_first_login_id_witness:
  "serves (pending_response example_world) 0 [example_pending] \<and>
   (\<exists>t. getPendingUsers example_world ''token'' ''g'' ''a'' ''2020-12-01'' False =
      Some (Inr [\<lparr>id' = JNum 3, email = JStr ''p@x.com'',
                  createdAt = createdAtTimestamp ''2020-12-01'', status = ''pending''\<rparr>], t)) \<and>
   serves (pending_response no_login_world) 0 [[\<lparr>p_id = JNum 4, login_ids = []\<rparr>]] \<and>
   (\<exists>t. getPendingUsers no_login_world ''token'' ''g'' ''a'' ''2020-12-01'' False =
      Some (Inl (TypeError ''Cannot read properties of undefined (reading id)''), t))"
proof -
  have p: "serves (pending_response example_world) 0 [example_pending]"
    by (simp add: example_world_def example_pending_def)
  have q: "serves (pending_response no_login_world) 0 [[\<lparr>p_id = JNum 4, login_ids = []\<rparr>]]"
    by (simp add: no_login_world_def)
  show ?thesis
    using p q
      pending_email_is_first_login_id [OF p, of "''token''" "''g''" "''a''" "''2020-12-01''" False]
      pending_email_is_first_login_id [OF q, of "''token''" "''g''" "''a''" "''2020-12-01''" False]
    by (simp add: example_pending_def)
qed

section \<open>The date parser on dates\<close>






















section \<open>The output path\<close>

lemma path_basename_no_slash: "CHR ''/'' \<notin> set (path_basename p)"
proof -
  have "\<And>xs. CHR ''/'' \<notin> set (takeWhile (\<lambda>c. c \<noteq> CHR ''/'') xs)"
    using set_takeWhileD by fastforce
  then show ?thesis by (simp add: path_basename_def)
qed

lemma split_slash_no_slash: "CHR ''/'' \<notin> set s \<Longrightarrow> split_slash s = [s]"
  by (induction s) auto

lemma split_slash_append:
  "CHR ''/'' \<notin> set s \<Longrightarrow> split_slash (s @ CHR ''/'' # t) = s # split_slash t"
  by (induction s) auto

lemma path_join_output:
  assumes "CHR ''/'' \<notin> set b"
  shows "path_join [''output'', b] =
           (if b = [] \<or> b = ''.'' then ''output'' else if b = ''..'' then ''.''
            else ''output/'' @ b)"
proof (cases "b = []")
  case True
  then show ?thesis by (simp add: path_join_def path_normalize_def)
next
  case False
  have s: "split_slash (''output'' @ CHR ''/'' # b) = [''output'', b]"
    using split_slash_append [of "''output''" b] split_slash_no_slash [OF assms] by simp
  have l: "last b \<noteq> CHR ''/''" using assms False last_in_set by metis
  show ?thesis
    using False s l by (simp add: path_join_def path_normalize_def Let_def)
qed


lemma resolve_outputFile_eq:
  assumes "raw \<noteq> []"
  shows "resolve_outputFile (Some raw) =
           Some (if path_basename raw = [] \<or> path_basename raw = ''.'' then ''output''
                 else if path_basename raw = ''..'' then ''.''
                 else ''output/'' @ path_basename raw)"
  using assms path_join_output [OF path_basename_no_slash, of raw]
  by (simp add: resolve_outputFile_def falsy_def)

text \<open>
  What holds of the output path: it is the join of \<^verbatim>\<open>output\<close> and the base name, it never has
  a parent-directory segment, and it lies inside \<^verbatim>\<open>output\<close> whenever the base name is a file
  name (not empty, \<^verbatim>\<open>.\<close> or \<^verbatim>\<open>..\<close>).
\<close>

theorem output_path_of_a_file_name:
  assumes "raw \<noteq> []"
  shows "\<exists>p. resolve_outputFile (Some raw) = Some p \<and>
           p = path_join [''output'', path_basename raw] \<and>
           no_parent_segment p \<and>
           (path_basename raw \<notin> {[], ''.'', ''..''} \<longrightarrow>
              p = ''output/'' @ path_basename raw \<and> inside_output p)"
proof -
  let ?b = "path_basename raw"
  have n: "CHR ''/'' \<notin> set ?b" by (rule path_basename_no_slash)
  have s: "split_slash (''output'' @ CHR ''/'' # ?b) = [''output'', ?b]"
    using split_slash_append [of "''output''" ?b] split_slash_no_slash [OF n] by simp
  have "resolve_outputFile (Some raw) = Some (path_join [''output'', ?b])"
    using assms by (simp add: resolve_outputFile_def falsy_def)
  moreover have "no_parent_segment (path_join [''output'', ?b])"
    using s by (auto simp: path_join_output [OF n] no_parent_segment_def)
  moreover have "?b \<notin> {[], ''.'', ''..''} \<longrightarrow>
      path_join [''output'', ?b] = ''output/'' @ ?b \<and> inside_output (path_join [''output'', ?b])"
    using s by (auto simp: path_join_output [OF n] inside_output_def)
  ultimately show ?thesis by blast
qed

theorem output_path_of_a_file_name_witness:
  "''x/../y.json'' \<noteq> [] \<and> path_basename ''x/../y.json'' = ''y.json'' \<and>
   resolve_outputFile (Some ''x/../y.json'') = Some ''output/y.json'' \<and>
   no_parent_segment ''output/y.json'' \<and> inside_output ''output/y.json''"
proof -
  have b: "path_basename ''x/../y.json'' = ''y.json''" by (simp add: path_basename_def)
  have r: "''x/../y.json'' \<noteq> []" by simp
  from output_path_of_a_file_name [OF r] b show ?thesis by auto
qed

section \<open>Invariants of the request functions\<close>

lemma only_mono: "only P m \<Longrightarrow> (\<And>ev. P ev \<Longrightarrow> Q ev) \<Longrightarrow> only Q m"
  by (auto simp: only_def list_all_iff)



lemma only_console [simp]:
  "only P (ret x)" "only P (throw e)" "only P (settle r)"
  "only P (log_info s args) = P (Console Info (Text s) args)"
  "only P (log_success s args) = P (Console Success (Text s) args)"
  "only P (log_warning s args) = P (Console Warning (Text s) args)"
  "only P (log_error s args) = P (Console Err (Text s) args)"
  "only P (emit evs) = list_all P evs"
  by (auto simp: only_def ret_def throw_def settle_def log_info_def log_success_def
        log_warning_def log_error_def emit_def)





lemma only_require [simp]: "only P (require x msg)"
  by (auto simp: require_def split: option.splits)



















lemma sound_leaves [simp]:
  "sound (ret x)" "sound (throw e)" "sound (settle r)"
  "sound (log_info s args)" "sound (log_success s args)" "sound (log_warning s args)"
  "sound (log_error s args)" "sound (log_debug v s args)" "sound (require y msg)"
  by (auto simp: sound_def consistent_def ret_def throw_def settle_def log_info_def
        log_success_def log_warning_def log_error_def log_debug_eq emit_def require_def
        split: sum.splits option.splits)

lemma sound_calls [simp]:
  "sound (axios_get r url tok)" "sound (axios_post r url u k)"
  "sound (fs_mkdir w dir)" "sound (fs_writeFile w file userData)"
  by (auto simp: sound_def consistent_def axios_get_def axios_post_def fs_mkdir_def
        fs_writeFile_def outcome_def fs_result_def split: sum.splits option.splits)










section \<open>The run as a whole\<close>

lemma require_fails: "falsy x \<Longrightarrow> require x msg = throw (JsError msg)"
  by (auto simp: require_def falsy_def)

lemma require_ok: "\<not> falsy x \<Longrightarrow> require x msg = ret (the x)"
  by (auto simp: require_def falsy_def split: option.splits)

lemma validation_fails:
  assumes "falsy (env_USERNAME cfg) \<or> falsy (env_API_KEY cfg) \<or> falsy (env_GROUP_ID cfg) \<or>
           falsy (env_APP_ID cfg) \<or>
           (argv_pendingUserDate cfg \<noteq> [] \<and> \<not> matches_date_pattern (argv_pendingUserDate cfg))"
  shows "\<exists>msg. main_try cfg w =
           Some (Inl (JsError msg), [Console Info (Text ''Realm users migration script started'') []])"
proof -
  have started: "log_info ''Realm users migration script started'' [] =
      Some (Inr (), [Console Info (Text ''Realm users migration script started'') []])"
    by (simp add: log_info_def emit_def)
  show ?thesis
  proof (cases "falsy (env_USERNAME cfg)")
    case True
    then show ?thesis
      by (simp add: main_try_def Let_def started bind_Inr require_fails throw_def)
  next
    case u: False
    show ?thesis
    proof (cases "falsy (env_API_KEY cfg)")
      case True
      with u show ?thesis
        by (simp add: main_try_def Let_def started bind_Inr require_fails require_ok throw_def)
    next
      case k: False
      show ?thesis
      proof (cases "falsy (env_GROUP_ID cfg)")
        case True
        with u k show ?thesis
          by (simp add: main_try_def Let_def started bind_Inr require_fails require_ok throw_def)
      next
        case g: False
        show ?thesis
        proof (cases "falsy (env_APP_ID cfg)")
          case True
          with u k g show ?thesis
            by (simp add: main_try_def Let_def started bind_Inr require_fails require_ok throw_def)
        next
          case a: False
          with assms u k g
          have "argv_pendingUserDate cfg \<noteq> [] \<and> \<not> matches_date_pattern (argv_pendingUserDate cfg)"
            by simp
          with u k g a show ?thesis
            by (simp add: main_try_def Let_def started bind_Inr require_fails require_ok throw_def)
        qed
      qed
    qed
  qed
qed






lemma throws_only_if:
  "(c \<Longrightarrow> throws_only P m) \<Longrightarrow> (\<not> c \<Longrightarrow> throws_only P n) \<Longrightarrow> throws_only P (if c then m else n)"
  by simp









section \<open>Debug lines and the batch size\<close>

lemma hide_debug_bind: "hide_debug (bind m f) = bind (hide_debug m) (\<lambda>x. hide_debug (f x))"
proof (cases m)
  case None
  then show ?thesis by (simp add: hide_debug_def)
next
  case (Some p)
  obtain a t where p: "p = (a, t)" by (cases p)
  show ?thesis
  proof (cases a)
    case (Inl e)
    with Some p show ?thesis by (simp add: hide_debug_def)
  next
    case (Inr x)
    with Some p show ?thesis by (cases "f x") (simp_all add: hide_debug_def bind_Inr)
  qed
qed

lemma hide_debug_log_debug: "hide_debug (log_debug v s args) = ret ()"
  by (simp add: hide_debug_def log_debug_eq ret_def)

lemma hide_debug_main_try:
  "hide_debug (main_try (cfg\<lparr>argv_batchSize := b\<rparr>) w) = hide_debug (main_try cfg w)"
  by (simp add: main_try_def Let_def hide_debug_bind hide_debug_log_debug)

lemma without_debug_main:
  "map_option without_debug (main cfg w) =
     (case hide_debug (main_try cfg w) of
        None \<Rightarrow> None
      | Some (Inr _, t) \<Rightarrow> Some (0, t)
      | Some (Inl e, t) \<Rightarrow>
          Some (1, t @ [Console Err (Text ''Error in migration script:'') [ArgError e]]))"
proof (cases "main_try cfg w")
  case None
  then show ?thesis by (simp add: main_def hide_debug_def)
next
  case (Some p)
  obtain a t where p: "p = (a, t)" by (cases p)
  with Some show ?thesis
    by (cases a) (simp_all add: main_def hide_debug_def without_debug_def)
qed

text \<open>
  C6. The batch size is read from the command line and printed in one debug line; nothing else
  depends on it. Two runs that differ in it alone end alike (both never, or both with the same
  exit code) and, debug lines apart, have the same trace: the same requests, the same file
  system calls with the same object to serialise, the same other console lines.
\<close>

theorem batch_size_changes_debug_output_only:
  "map_option without_debug (main (cfg\<lparr>argv_batchSize := b1\<rparr>) w) =
   map_option without_debug (main (cfg\<lparr>argv_batchSize := b2\<rparr>) w)"
  by (simp only: without_debug_main hide_debug_main_try)


theorem batch_size_changes_debug_output_only_witness:
  "map_option without_debug (main (example_config\<lparr>argv_verbose := True, argv_batchSize := 1\<rparr>) offline_world) =
   map_option without_debug (main (example_config\<lparr>argv_verbose := True, argv_batchSize := 2\<rparr>) offline_world) \<and>
   map_option (\<lambda>r. trace r ! 4)
     (main (example_config\<lparr>argv_verbose := True, argv_batchSize := 1\<rparr>) offline_world) =
     Some (Console Debug (Text ''- Batch size: 1'') []) \<and>
   map_option (\<lambda>r. trace r ! 4)
     (main (example_config\<lparr>argv_verbose := True, argv_batchSize := 2\<rparr>) offline_world) =
     Some (Console Debug (Text ''- Batch size: 2'') [])"
proof -
  have small: "map_option (\<lambda>r. trace r ! 4)
     (main (example_config\<lparr>argv_verbose := True, argv_batchSize := 1\<rparr>) offline_world) =
     Some (Console Debug (Text ''- Batch size: 1'') [])"
    by code_simp
  have large: "map_option (\<lambda>r. trace r ! 4)
     (main (example_config\<lparr>argv_verbose := True, argv_batchSize := 2\<rparr>) offline_world) =
     Some (Console Debug (Text ''- Batch size: 2'') [])"
    by code_simp
  note same = batch_size_changes_debug_output_only
         [of 1 "example_config\<lparr>argv_verbose := True\<rparr>" offline_world 2]
  show ?thesis
    by (rule conjI [OF same conjI [OF small large]])
qed

section \<open>The export step\<close>

lemma samples_simps [simp]:
  "samples [] = []"
  "samples (ev # t) = sample ev @ samples t"
  "samples (s @ t) = samples s @ samples t"
  by (simp_all add: samples_def)



















section \<open>Validation\<close>

text \<open>
  What validation does reject: with an environment variable missing or empty, or with a
  non-empty date that does not match the pattern, the run ends with code 1 after the first
  console line and the line for the error; no request is made.
\<close>

theorem validation_precedes_requests:
  assumes "falsy (env_USERNAME cfg) \<or> falsy (env_API_KEY cfg) \<or> falsy (env_GROUP_ID cfg) \<or>
           falsy (env_APP_ID cfg) \<or>
           (argv_pendingUserDate cfg \<noteq> [] \<and> \<not> matches_date_pattern (argv_pendingUserDate cfg))"
  shows "\<exists>msg r. main cfg w = Some r \<and> exit_code r = 1 \<and>
           trace r = [Console Info (Text ''Realm users migration script started'') [],
                      Console Err (Text ''Error in migration script:'') [ArgError (JsError msg)]] \<and>
           list_all (\<lambda>ev. \<not> is_http ev) (trace r)"
proof -
  from validation_fails [OF assms, of w] obtain msg where
    "main_try cfg w =
       Some (Inl (JsError msg), [Console Info (Text ''Realm users migration script started'') []])"
    ..
  then show ?thesis by (simp add: main_def)
qed

theorem validation_precedes_requests_witness:
  "falsy (env_API_KEY (example_config\<lparr>env_API_KEY := None\<rparr>)) \<and>
   (\<exists>r. main (example_config\<lparr>env_API_KEY := None\<rparr>) example_world = Some r \<and>
        exit_code r = 1 \<and> list_all (\<lambda>ev. \<not> is_http ev) (trace r)) \<and>
   \<not> matches_date_pattern ''01/12/2020'' \<and>
   (\<exists>r. main (example_config\<lparr>argv_pendingUserDate := ''01/12/2020''\<rparr>) example_world = Some r \<and>
        exit_code r = 1 \<and> list_all (\<lambda>ev. \<not> is_http ev) (trace r))"
proof -
  have k: "falsy (env_API_KEY (example_config\<lparr>env_API_KEY := None\<rparr>))"
    by (simp add: falsy_def)
  have d: "\<not> matches_date_pattern ''01/12/2020''"
    by (simp add: matches_date_pattern_def is_digit_def)
  from k have k': "falsy (env_USERNAME (example_config\<lparr>env_API_KEY := None\<rparr>)) \<or>
      falsy (env_API_KEY (example_config\<lparr>env_API_KEY := None\<rparr>)) \<or>
      falsy (env_GROUP_ID (example_config\<lparr>env_API_KEY := None\<rparr>)) \<or>
      falsy (env_APP_ID (example_config\<lparr>env_API_KEY := None\<rparr>)) \<or>
      (argv_pendingUserDate (example_config\<lparr>env_API_KEY := None\<rparr>) \<noteq> [] \<and>
       \<not> matches_date_pattern (argv_pendingUserDate (example_config\<lparr>env_API_KEY := None\<rparr>)))"
    by blast
  from d have d': "falsy (env_USERNAME (example_config\<lparr>argv_pendingUserDate := ''01/12/2020''\<rparr>)) \<or>
      falsy (env_API_KEY (example_config\<lparr>argv_pendingUserDate := ''01/12/2020''\<rparr>)) \<or>
      falsy (env_GROUP_ID (example_config\<lparr>argv_pendingUserDate := ''01/12/2020''\<rparr>)) \<or>
      falsy (env_APP_ID (example_config\<lparr>argv_pendingUserDate := ''01/12/2020''\<rparr>)) \<or>
      (argv_pendingUserDate (example_config\<lparr>argv_pendingUserDate := ''01/12/2020''\<rparr>) \<noteq> [] \<and>
       \<not> matches_date_pattern
            (argv_pendingUserDate (example_config\<lparr>argv_pendingUserDate := ''01/12/2020''\<rparr>)))"
    by simp
  from validation_precedes_requests [OF k', of example_world]
    validation_precedes_requests [OF d', of example_world] k d
  show ?thesis by blast
qed

text \<open>
  C4. A date that does not match the pattern is not always rejected: the guard in front of
  the test lets the empty string through. With it the run logs in, fetches both lists, gives
  every pending user the \<^verbatim>\<open>createdAt\<close> value \<^verbatim>\<open>NaN\<close> and ends with code 0.
\<close>

theorem empty_date_passes_validation:
  "\<not> matches_date_pattern [] \<and>
   map_option (\<lambda>r. (exit_code r, filter (\<lambda>ev. \<not> is_console ev) (trace r)))
     (main (example_config\<lparr>argv_pendingUserDate := []\<rparr>) example_world) =
   Some (0,
     [HttpPost
        ''https://services.cloud.mongodb.com/api/admin/v3.0/auth/providers/mongodb-cloud/login''
        ''user'' ''key'' None,
      HttpGet ''https://services.cloud.mongodb.com/api/admin/v3.0/groups/g/apps/a/users''
        ''token'' None,
      HttpGet ''https://services.cloud.mongodb.com/api/admin/v3.0/groups/g/apps/a/users?after=2''
        ''token'' None,
      HttpGet
        ''https://services.cloud.mongodb.com/api/admin/v3.0/groups/g/apps/a/user_registrations/pending_users''
        ''token'' None,
      HttpGet
        ''https://services.cloud.mongodb.com/api/admin/v3.0/groups/g/apps/a/user_registrations/pending_users?after=3''
        ''token'' None,
      Mkdir ''output'' None,
      WriteFile ''output/out.json''
        \<lparr>out_metadata =
           \<lparr>md_exportDate = ''2025-03-30T12:15:00.000Z'', md_groupId = ''g'', md_appId = ''a'',
            md_totalUsers = 2, md_totalPendingUsers = 1, md_pendingUserDate = []\<rparr>,
         out_users =
           [\<lparr>id' = JNum 1, email = JStr ''a@x.com'', createdAt = JNum 1606857105,
             status = ''active''\<rparr>,
            \<lparr>id' = JNum 2, email = JStr ''b@x.com'', createdAt = JNum 1606857106,
             status = ''active''\<rparr>],
         out_pendingUsers =
           [\<lparr>id' = JNum 3, email = JStr ''p@x.com'', createdAt = JNaN, status = ''pending''\<rparr>]\<rparr>
        None])"
  by code_simp

section \<open>The output path in a run\<close>

text \<open>
  C3. The output path is not inside \<^verbatim>\<open>output\<close> for every string given. For \<^verbatim>\<open>..\<close> it is
  \<^verbatim>\<open>.\<close>, the directory above, and for \<^verbatim>\<open>.\<close> and \<^verbatim>\<open>/\<close> it is \<^verbatim>\<open>output\<close> itself;
  the run then calls \<^verbatim>\<open>fs.writeFile\<close> with that path.
\<close>

theorem output_path_outside_the_directory:
  "resolve_outputFile (Some ''..'') = Some ''.'' \<and> \<not> inside_output ''.'' \<and>
   resolve_outputFile (Some ''.'') = Some ''output'' \<and>
   resolve_outputFile (Some ''/'') = Some ''output'' \<and> \<not> inside_output ''output'' \<and>
   map_option (\<lambda>r. write_paths (trace r))
     (main (example_config\<lparr>argv_outputFile := Some ''..''\<rparr>) example_world) = Some [''.''] \<and>
   map_option (\<lambda>r. write_paths (trace r))
     (main (example_config\<lparr>argv_outputFile := Some ''/''\<rparr>) example_world) = Some [''output'']"
  by code_simp

end
